theory Spec2Isabelle
  imports Complex_Main
begin

section \<open>Data model (models/thread.ts)\<close>

text \<open>
  Offsets are JavaScript numbers used as character positions; they are modelled as
  \<open>int\<close>, so that the guards of the source on negative values stay meaningful.
  Strings are lists of code units.
\<close>

record TextAnchor =
  anchorText :: string
  startOffset :: int
  endOffset :: int
  sectionHeading :: "string option"

datatype ThreadStatus = Open | Resolved

datatype SuggestionStatus = Pending | Accepted | Rejected

datatype AuthorType = Human | Agent

record Suggestion =
  originalText :: string
  replacementText :: string
  status :: SuggestionStatus

record ThreadMessage =
  msg_id :: string
  author :: string
  authorType :: AuthorType
  content :: string
  timestamp :: string
  suggestion :: "Suggestion option"
  knowledgeRefs :: "string list option"

record CommentThread =
  thread_id :: string
  documentId :: string
  anchor :: TextAnchor
  thread_status :: ThreadStatus
  messages :: "ThreadMessage list"
  createdAt :: string
  updatedAt :: string

section \<open>JavaScript string primitives\<close>

text \<open>\<open>String.prototype.slice(start, end)\<close>: a negative index counts from the end,
  both indices are clamped to the string, and an empty string results when the
  start is not before the end.\<close>

definition js_index :: "nat \<Rightarrow> int \<Rightarrow> nat" where
  "js_index len i = (if i < 0 then nat (max (int len + i) 0) else min (nat i) len)"

definition js_slice :: "string \<Rightarrow> int \<Rightarrow> int \<Rightarrow> string" where
  "js_slice s start end =
     (let from = js_index (length s) start; to = js_index (length s) end
      in take (to - from) (drop from s))"

definition js_slice_from :: "string \<Rightarrow> int \<Rightarrow> string" where
  "js_slice_from s start = drop (js_index (length s) start) s"

text \<open>\<open>haystack.indexOf(needle, from)\<close> with \<open>from \<ge> 0\<close>: the first position at or
  after \<open>from\<close> where the needle starts, \<open>None\<close> for \<open>-1\<close>.\<close>

fun find_from :: "string \<Rightarrow> string \<Rightarrow> nat \<Rightarrow> nat option" where
  "find_from needle [] pos = (if needle = [] then Some pos else None)"
| "find_from needle (c # cs) pos =
     (if take (length needle) (c # cs) = needle then Some pos
      else find_from needle cs (Suc pos))"

definition js_indexOf :: "string \<Rightarrow> string \<Rightarrow> nat \<Rightarrow> nat option" where
  "js_indexOf haystack needle from =
     (let k = min from (length haystack) in find_from needle (drop k haystack) k)"

definition js_includes :: "string \<Rightarrow> string \<Rightarrow> bool" where
  "js_includes haystack needle = (js_indexOf haystack needle 0 \<noteq> None)"

section \<open>Anchor resolution (storage/anchor.ts)\<close>

datatype ResolveMethod = Exact | TextSearch | HeadingFallback

record ResolvedAnchor =
  resolved_start :: int
  resolved_end :: int
  resolved_method :: ResolveMethod

text \<open>\<open>bestDistance\<close> starts at \<open>Infinity\<close>, which is \<open>None\<close> here.\<close>

definition closer :: "int \<Rightarrow> int option \<Rightarrow> bool" where
  "closer distance bestDistance =
     (case bestDistance of None \<Rightarrow> True | Some b \<Rightarrow> distance < b)"

function findClosestMatch_loop ::
  "string \<Rightarrow> string \<Rightarrow> int \<Rightarrow> nat \<Rightarrow> nat option \<Rightarrow> int option \<Rightarrow> nat option" where
  "findClosestMatch_loop needle haystack preferredOffset searchFrom bestOffset bestDistance =
     (if int searchFrom \<le> int (length haystack) - int (length needle) then
        (case js_indexOf haystack needle searchFrom of
           None \<Rightarrow> bestOffset
         | Some idx \<Rightarrow>
             (let distance = \<bar>int idx - preferredOffset\<bar> in
              if closer distance bestDistance
              then findClosestMatch_loop needle haystack preferredOffset (idx + 1)
                     (Some idx) (Some distance)
              else findClosestMatch_loop needle haystack preferredOffset (idx + 1)
                     bestOffset bestDistance))
      else bestOffset)"
  by pat_completeness auto
termination
proof (relation "measure (\<lambda>(n, h, p, sf, bo, bd). Suc (length h) - sf)")
  show "wf (measure (\<lambda>(n, h, p, sf, bo, bd). Suc (length h) - sf))" by simp
next
  fix needle haystack :: string and preferredOffset :: int and searchFrom idx :: nat
    and bestOffset :: "nat option" and bestDistance :: "int option" and distance :: int
  assume a: "int searchFrom \<le> int (length haystack) - int (length needle)"
    and b: "js_indexOf haystack needle searchFrom = Some idx"
  have ge: "find_from n h pos = Some i \<Longrightarrow> pos \<le> i" for n h pos i
    by (induction h arbitrary: pos) (auto split: if_splits dest: Suc_leD)
  from a have le: "searchFrom \<le> length haystack" by linarith
  with b have "searchFrom \<le> idx"
    by (auto simp: js_indexOf_def Let_def min_def dest: ge)
  with le have dec: "Suc (length haystack) - (idx + 1) < Suc (length haystack) - searchFrom"
    by linarith
  from dec show "((needle, haystack, preferredOffset, idx + 1, Some idx, Some distance),
         (needle, haystack, preferredOffset, searchFrom, bestOffset, bestDistance))
        \<in> measure (\<lambda>(n, h, p, sf, bo, bd). Suc (length h) - sf)" by simp
  from dec show "((needle, haystack, preferredOffset, idx + 1, bestOffset, bestDistance),
         (needle, haystack, preferredOffset, searchFrom, bestOffset, bestDistance))
        \<in> measure (\<lambda>(n, h, p, sf, bo, bd). Suc (length h) - sf)" by simp
qed

declare findClosestMatch_loop.simps [simp del]

definition findClosestMatch :: "string \<Rightarrow> string \<Rightarrow> int \<Rightarrow> nat option" where
  "findClosestMatch needle haystack preferredOffset =
     (if length needle = 0 then None
      else findClosestMatch_loop needle haystack preferredOffset 0 None None)"


text \<open>The heading pattern \<open>new RegExp("^#{1,L} ", "m")\<close>: at the start of a line, between
  one and \<open>L\<close> hash marks followed by a space. A run of more than \<open>L\<close> hash marks
  cannot match, because the character after the first \<open>L\<close> is again a hash mark.\<close>

definition hashes :: "string \<Rightarrow> nat" where
  "hashes s = length (takeWhile (\<lambda>c. c = CHR ''#'') s)"

definition headingAt :: "nat \<Rightarrow> string \<Rightarrow> bool" where
  "headingAt level s =
     (1 \<le> hashes s \<and> hashes s \<le> level \<and>
      (case drop (hashes s) s of [] \<Rightarrow> False | c # _ \<Rightarrow> c = CHR '' ''))"

text \<open>Line terminators for \<open>^\<close> in multiline mode: line feed and carriage return
  (the separators U+2028 and U+2029 are not among the 8-bit code units of the model).\<close>

definition isLineTerminator :: "char \<Rightarrow> bool" where
  "isLineTerminator c = (c = CHR 0x0A \<or> c = CHR 0x0D)"

fun headingPattern_exec :: "nat \<Rightarrow> string \<Rightarrow> bool \<Rightarrow> nat \<Rightarrow> nat option" where
  "headingPattern_exec level [] lineStart pos = None"
| "headingPattern_exec level (c # cs) lineStart pos =
     (if lineStart \<and> headingAt level (c # cs) then Some pos
      else headingPattern_exec level cs (isLineTerminator c) (Suc pos))"

text \<open>\<open>sectionHeading.match(/^#+/)?.[0]?.length ?? 1\<close>\<close>

definition headingLevel :: "string \<Rightarrow> nat" where
  "headingLevel heading = (if hashes heading = 0 then 1 else hashes heading)"

definition resolveViaHeading :: "string \<Rightarrow> string \<Rightarrow> string \<Rightarrow> nat option" where
  "resolveViaHeading anchorText' documentContent sectionHeading' =
     (case js_indexOf documentContent sectionHeading' 0 of
        None \<Rightarrow> None
      | Some headingIdx \<Rightarrow>
          (let afterHeading =
                 js_slice_from documentContent (int (headingIdx + length sectionHeading'));
               sectionEnd =
                 (case headingPattern_exec (headingLevel sectionHeading') afterHeading True 0 of
                    Some index \<Rightarrow> headingIdx + length sectionHeading' + index
                  | None \<Rightarrow> length documentContent);
               sectionContent = js_slice documentContent (int headingIdx) (int sectionEnd)
           in case js_indexOf sectionContent anchorText' 0 of
                None \<Rightarrow> None
              | Some localIdx \<Rightarrow> Some (headingIdx + localIdx)))"

text \<open>Layer 1 of \<open>resolveAnchor\<close>: the guard of the exact-offset fast path.\<close>

definition exactMatch :: "TextAnchor \<Rightarrow> string \<Rightarrow> bool" where
  "exactMatch a documentContent =
     (startOffset a \<ge> 0 \<and>
      endOffset a \<le> int (length documentContent) \<and>
      startOffset a < endOffset a \<and>
      js_slice documentContent (startOffset a) (endOffset a) = anchorText a)"

text \<open>\<open>if (anchor.sectionHeading)\<close>: an absent or empty heading is falsy.\<close>

definition truthy_heading :: "string option \<Rightarrow> string option" where
  "truthy_heading h = (case h of None \<Rightarrow> None | Some s \<Rightarrow> if s = [] then None else Some s)"

definition resolveAnchor :: "TextAnchor \<Rightarrow> string \<Rightarrow> ResolvedAnchor option" where
  "resolveAnchor a documentContent =
     (if length documentContent = 0 then None
      else if exactMatch a documentContent
      then Some \<lparr>resolved_start = startOffset a, resolved_end = endOffset a,
                 resolved_method = Exact\<rparr>
      else
        (case findClosestMatch (anchorText a) documentContent (startOffset a) of
           Some textResult \<Rightarrow>
             Some \<lparr>resolved_start = int textResult,
                   resolved_end = int textResult + int (length (anchorText a)),
                   resolved_method = TextSearch\<rparr>
         | None \<Rightarrow>
             (case truthy_heading (sectionHeading a) of
                None \<Rightarrow> None
              | Some heading \<Rightarrow>
                  (case resolveViaHeading (anchorText a) documentContent heading of
                     Some headingResult \<Rightarrow>
                       Some \<lparr>resolved_start = int headingResult,
                             resolved_end = int headingResult + int (length (anchorText a)),
                             resolved_method = HeadingFallback\<rparr>
                   | None \<Rightarrow> None))))"

section \<open>Anchor index (storage/anchor.ts)\<close>

text \<open>
  The interval tree is represented by its content, the list of inserted
  (interval, thread id) pairs; \<open>threadMap\<close> is a JavaScript \<open>Map\<close>, an insertion-ordered
  association list with unique keys. A thread of \<open>threadMap\<close> carries the content that
  its anchor had when the index was built.
\<close>

record AnchorIndex =
  tree :: "((int \<times> int) \<times> string) list"
  threadMap :: "(string \<times> CommentThread) list"

fun map_set :: "('k \<times> 'v) list \<Rightarrow> 'k \<Rightarrow> 'v \<Rightarrow> ('k \<times> 'v) list" where
  "map_set [] k v = [(k, v)]"
| "map_set ((k', v') # m) k v = (if k' = k then (k, v) # m else (k', v') # map_set m k v)"

definition map_values :: "('k \<times> 'v) list \<Rightarrow> 'v list" where
  "map_values m = map snd m"

definition empty_index :: AnchorIndex where
  "empty_index = \<lparr>tree = [], threadMap = []\<rparr>"

definition build_step :: "AnchorIndex \<Rightarrow> CommentThread \<Rightarrow> AnchorIndex" where
  "build_step idx thread =
     \<lparr>tree = (if startOffset (anchor thread) < endOffset (anchor thread)
              then tree idx @ [((startOffset (anchor thread), endOffset (anchor thread)),
                                thread_id thread)]
              else tree idx),
      threadMap = map_set (threadMap idx) (thread_id thread) thread\<rparr>"

definition build :: "CommentThread list \<Rightarrow> AnchorIndex" where
  "build ts = foldl build_step empty_index ts"

text \<open>\<open>query\<close>: the intervals of the tree are closed; the order of the result is that
  of insertion here, that of the tree in the source.\<close>

definition query :: "AnchorIndex \<Rightarrow> int \<Rightarrow> CommentThread list" where
  "query idx offset =
     List.map_filter (\<lambda>(iv, i). map_of (threadMap idx) i)
       (filter (\<lambda>(iv, i). fst iv \<le> offset \<and> offset \<le> snd iv) (tree idx))"

definition shiftAnchor :: "int \<Rightarrow> int \<Rightarrow> int \<Rightarrow> TextAnchor \<Rightarrow> TextAnchor" where
  "shiftAnchor changeFrom changeTo delta a =
     (if startOffset a \<ge> changeTo
      then a\<lparr>startOffset := startOffset a + delta, endOffset := endOffset a + delta\<rparr>
      else if startOffset a \<ge> changeFrom \<and> endOffset a \<le> changeTo then a
      else if endOffset a > changeFrom
      then a\<lparr>endOffset := max (startOffset a) (endOffset a + delta)\<rparr>
      else a)"

text \<open>
  Anchor objects. A thread object refers to its anchor object, and two thread objects
  may refer to the same one (\<open>createThread\<close> of models/thread.ts stores the caller's
  object). The anchor objects live in a store, a function from addresses to their
  current content, and \<open>anchorOf\<close> gives, for the id of a thread held in the map, the
  address of its anchor object. The loop of \<open>applyOffsetShift\<close> visits every thread of
  the map once and updates the anchor object of that thread in place; an anchor object
  that two threads share is therefore visited twice.
\<close>

type_synonym 'r anchor_store = "'r \<Rightarrow> TextAnchor"

definition shift_in_place ::
  "(string \<Rightarrow> 'r) \<Rightarrow> int \<Rightarrow> int \<Rightarrow> int \<Rightarrow> 'r anchor_store \<Rightarrow> CommentThread \<Rightarrow> 'r anchor_store" where
  "shift_in_place anchorOf changeFrom changeTo delta store thread =
     store(anchorOf (thread_id thread) :=
             shiftAnchor changeFrom changeTo delta (store (anchorOf (thread_id thread))))"

text \<open>The thread with the current content of its anchor object.\<close>

definition with_anchor :: "(string \<Rightarrow> 'r) \<Rightarrow> 'r anchor_store \<Rightarrow> CommentThread \<Rightarrow> CommentThread" where
  "with_anchor anchorOf store thread = thread\<lparr>anchor := store (anchorOf (thread_id thread))\<rparr>"

definition applyOffsetShift ::
  "(string \<Rightarrow> 'r) \<Rightarrow> 'r anchor_store \<Rightarrow> AnchorIndex \<Rightarrow> int \<Rightarrow> int \<Rightarrow> int
     \<Rightarrow> 'r anchor_store \<times> AnchorIndex" where
  "applyOffsetShift anchorOf store idx changeFrom changeTo insertLength =
     (let delta = insertLength - (changeTo - changeFrom) in
      if delta = 0 then (store, idx)
      else
        (let ts = map_values (threadMap idx);
             store' = foldl (shift_in_place anchorOf changeFrom changeTo delta) store ts
         in (store', build (map (with_anchor anchorOf store') ts))))"

section \<open>Vocabulary for the properties of the resolver and the index\<close>

text \<open>The needle occurs in the haystack at position \<open>i\<close>.\<close>

definition occurs_at :: "string \<Rightarrow> string \<Rightarrow> nat \<Rightarrow> bool" where
  "occurs_at haystack needle i =
     (i + length needle \<le> length haystack \<and> take (length needle) (drop i haystack) = needle)"

definition distance_to :: "int \<Rightarrow> nat \<Rightarrow> int" where
  "distance_to preferredOffset i = \<bar>int i - preferredOffset\<bar>"

text \<open>Occurrence \<open>b\<close> is strictly closer than \<open>j\<close>, or equally close and not to its right.\<close>

definition better_eq :: "int \<Rightarrow> nat \<Rightarrow> nat \<Rightarrow> bool" where
  "better_eq p b j =
     (distance_to p b < distance_to p j \<or> (distance_to p b = distance_to p j \<and> b \<le> j))"

text \<open>Loop invariant of \<open>findClosestMatch\<close>: the candidate is the best occurrence
  among those that start before \<open>searchFrom\<close>.\<close>

definition best_upto :: "string \<Rightarrow> string \<Rightarrow> int \<Rightarrow> nat \<Rightarrow> nat option \<Rightarrow> int option \<Rightarrow> bool" where
  "best_upto h n p sf bo bd =
     (case bo of
        None \<Rightarrow> bd = None \<and> (\<forall>j < sf. \<not> occurs_at h n j)
      | Some b \<Rightarrow> bd = Some (distance_to p b) \<and> occurs_at h n b \<and> b < sf \<and>
                  (\<forall>j < sf. occurs_at h n j \<longrightarrow> better_eq p b j))"

definition leftmost_closest :: "string \<Rightarrow> string \<Rightarrow> int \<Rightarrow> nat option \<Rightarrow> bool" where
  "leftmost_closest h n p r =
     (case r of
        None \<Rightarrow> (\<forall>j. \<not> occurs_at h n j)
      | Some b \<Rightarrow> occurs_at h n b \<and> (\<forall>j. occurs_at h n j \<longrightarrow> better_eq p b j))"

text \<open>Invariant of every index that \<open>build\<close> produces: the keys of \<open>threadMap\<close> are
  distinct and each key is the id of the thread stored under it.\<close>

definition index_wf :: "AnchorIndex \<Rightarrow> bool" where
  "index_wf idx =
     (distinct (map fst (threadMap idx)) \<and>
      (\<forall>(k, t) \<in> set (threadMap idx). k = thread_id t))"

text \<open>Threads, addresses and stores used in the examples. In \<open>one_anchor_object\<close> every
  thread refers to the anchor object at address 0.\<close>

definition example_thread :: "int \<Rightarrow> int \<Rightarrow> CommentThread" where
  "example_thread s e =
     \<lparr>thread_id = ''t1'', documentId = ''notes.md'',
      anchor = \<lparr>anchorText = ''text'', startOffset = s, endOffset = e, sectionHeading = None\<rparr>,
      thread_status = Open, messages = [], createdAt = ''2026'', updatedAt = ''2026''\<rparr>"

definition example_thread2 :: "int \<Rightarrow> int \<Rightarrow> CommentThread" where
  "example_thread2 s e = (example_thread s e)\<lparr>thread_id := ''t2''\<rparr>"

definition one_anchor_object :: "string \<Rightarrow> nat" where
  "one_anchor_object threadId = 0"

definition store_10_14 :: "nat anchor_store" where
  "store_10_14 a = anchor (example_thread 10 14)"

definition separate_anchor_objects :: "string \<Rightarrow> nat" where
  "separate_anchor_objects threadId = (if threadId = ''t1'' then 1 else 2)"

definition store_separate :: "nat anchor_store" where
  "store_separate a = (if a = 1 then anchor (example_thread 10 14) else anchor (example_thread2 0 3))"

section \<open>Errors\<close>

text \<open>
  The source signals every failure with \<open>throw new Error(message)\<close>. Each throw site
  is one constructor, named after the error taxonomy of the specification:
  \<open>NoActiveDocument\<close> for \<open>ensureActiveFile\<close>, \<open>ThreadNotFound\<close> and
  \<open>MessageNotFound\<close> for \<open>findThread\<close> and \<open>findMessage\<close>, \<open>NoSuggestion\<close> for
  "has no suggestion", \<open>AlreadyDecided\<close> for "is already ...", \<open>StaleSuggestion\<close> for
  "Original text not found at anchor position", and \<open>OnlyMdSupported\<close> for the guard
  of \<open>getPath\<close>.
\<close>

datatype error =
    NoActiveDocument
  | ThreadNotFound
  | MessageNotFound
  | NoSuggestion
  | AlreadyDecided
  | StaleSuggestion
  | OnlyMdSupported

section \<open>The vault (obsidian)\<close>

text \<open>
  The vault is the host application's file store. It is modelled as the repository's own
  test double does (\<open>tests/__mocks__/obsidian.ts\<close>): a map from paths to file contents,
  where \<open>read\<close> of a missing file yields the empty string and \<open>modify\<close> and \<open>create\<close>
  both store the content under the path.
\<close>

record TFile =
  path :: string
  extension :: string

type_synonym Vault = "string \<rightharpoonup> string"

definition vault_read :: "Vault \<Rightarrow> TFile \<Rightarrow> string" where
  "vault_read v file = (case v (path file) of None \<Rightarrow> [] | Some c \<Rightarrow> c)"

definition vault_modify :: "Vault \<Rightarrow> TFile \<Rightarrow> string \<Rightarrow> Vault" where
  "vault_modify v file data = v(path file \<mapsto> data)"

section \<open>JSON values and sidecar validation (models/thread.ts)\<close>

text \<open>
  The result of \<open>JSON.parse\<close>. An object is an association list in which the first
  binding of a key is the one that counts. \<open>JSON.parse\<close> itself is a parameter of
  \<open>load\<close>: a function from the file content to a value, \<open>None\<close> when it throws
  \<open>SyntaxError\<close>.
\<close>

datatype json =
    JNull
  | JBool bool
  | JNum rat
  | JStr string
  | JArr "json list"
  | JObj "(string \<times> json) list"

datatype js_type = T_undefined | T_object | T_boolean | T_number | T_string

text \<open>\<open>typeof\<close>, with \<open>None\<close> for \<open>undefined\<close>; \<open>typeof null\<close> and \<open>typeof []\<close> are
  \<open>"object"\<close>.\<close>

fun typeof :: "json option \<Rightarrow> js_type" where
  "typeof None = T_undefined"
| "typeof (Some JNull) = T_object"
| "typeof (Some (JBool b)) = T_boolean"
| "typeof (Some (JNum n)) = T_number"
| "typeof (Some (JStr s)) = T_string"
| "typeof (Some (JArr xs)) = T_object"
| "typeof (Some (JObj kvs)) = T_object"

fun truthy :: "json option \<Rightarrow> bool" where
  "truthy None = False"
| "truthy (Some JNull) = False"
| "truthy (Some (JBool b)) = b"
| "truthy (Some (JNum n)) = (n \<noteq> 0)"
| "truthy (Some (JStr s)) = (s \<noteq> [])"
| "truthy (Some (JArr xs)) = True"
| "truthy (Some (JObj kvs)) = True"

text \<open>\<open>value[key]\<close> for the keys the validation reads (none of them is \<open>length\<close> or an
  index): only an object has such a property.\<close>

fun get_prop :: "json option \<Rightarrow> string \<Rightarrow> json option" where
  "get_prop (Some (JObj kvs)) key = map_of kvs key"
| "get_prop v key = None"

text \<open>\<open>key in value\<close>, evaluated only after \<open>typeof value === "object"\<close> and
  \<open>value !== null\<close>.\<close>

fun has_key :: "json \<Rightarrow> string \<Rightarrow> bool" where
  "has_key (JObj kvs) key = (key \<in> set (map fst kvs))"
| "has_key v key = False"

fun isArray :: "json option \<Rightarrow> bool" where
  "isArray (Some (JArr xs)) = True"
| "isArray v = False"

fun as_string :: "json option \<Rightarrow> string" where
  "as_string (Some (JStr s)) = s"
| "as_string v = []"

fun as_array :: "json option \<Rightarrow> json list" where
  "as_array (Some (JArr xs)) = xs"
| "as_array v = []"

text \<open>One constructor for each \<open>return { valid: false, error: ... }\<close> of the source.\<close>

datatype validation_error =
    NotAnObject
  | InvalidVersionField
  | UnsupportedVersion
  | InvalidThreadsArray
  | ThreadNotObject nat
  | ThreadMissingId nat
  | ThreadMissingAnchor
  | ThreadInvalidStatus
  | ThreadMissingMessages
  | MessageNotObject nat
  | MessageMissingId nat
  | MessageInvalidAuthorType
  | SuggestionInvalidStatus

datatype ValidationResult = Valid | Invalid validation_error

definition VALID_THREAD_STATUSES :: "string list" where
  "VALID_THREAD_STATUSES = [''open'', ''resolved'']"

definition VALID_SUGGESTION_STATUSES :: "string list" where
  "VALID_SUGGESTION_STATUSES = [''pending'', ''accepted'', ''rejected'']"

definition VALID_AUTHOR_TYPES :: "string list" where
  "VALID_AUTHOR_TYPES = [''human'', ''agent'']"

definition CURRENT_SCHEMA_VERSION :: rat where
  "CURRENT_SCHEMA_VERSION = 1"

definition validateMessage :: "json \<Rightarrow> nat \<Rightarrow> ValidationResult" where
  "validateMessage data index =
     (if typeof (Some data) \<noteq> T_object \<or> data = JNull then Invalid (MessageNotObject index)
      else if \<not> truthy (get_prop (Some data) ''id'') \<or> typeof (get_prop (Some data) ''id'') \<noteq> T_string
      then Invalid (MessageMissingId index)
      else if typeof (get_prop (Some data) ''authorType'') = T_string \<and>
              as_string (get_prop (Some data) ''authorType'') \<notin> set VALID_AUTHOR_TYPES
      then Invalid MessageInvalidAuthorType
      else if truthy (get_prop (Some data) ''suggestion'') \<and>
              typeof (get_prop (get_prop (Some data) ''suggestion'') ''status'') = T_string \<and>
              as_string (get_prop (get_prop (Some data) ''suggestion'') ''status'')
                \<notin> set VALID_SUGGESTION_STATUSES
      then Invalid SuggestionInvalidStatus
      else Valid)"

text \<open>The iterations \<open>for (let j = 0; ...)\<close>: the first invalid element decides.\<close>

fun validateMessages :: "json list \<Rightarrow> nat \<Rightarrow> ValidationResult" where
  "validateMessages [] j = Valid"
| "validateMessages (m # ms) j =
     (case validateMessage m j of
        Invalid e \<Rightarrow> Invalid e
      | Valid \<Rightarrow> validateMessages ms (Suc j))"

definition validateThread :: "json \<Rightarrow> nat \<Rightarrow> ValidationResult" where
  "validateThread data index =
     (if typeof (Some data) \<noteq> T_object \<or> data = JNull then Invalid (ThreadNotObject index)
      else if \<not> truthy (get_prop (Some data) ''id'') \<or> typeof (get_prop (Some data) ''id'') \<noteq> T_string
      then Invalid (ThreadMissingId index)
      else if \<not> truthy (get_prop (Some data) ''anchor'') \<or>
              typeof (get_prop (Some data) ''anchor'') \<noteq> T_object
      then Invalid ThreadMissingAnchor
      else if typeof (get_prop (Some data) ''status'') = T_string \<and>
              as_string (get_prop (Some data) ''status'') \<notin> set VALID_THREAD_STATUSES
      then Invalid ThreadInvalidStatus
      else if \<not> isArray (get_prop (Some data) ''messages'') then Invalid ThreadMissingMessages
      else validateMessages (as_array (get_prop (Some data) ''messages'')) 0)"

fun validateThreads :: "json list \<Rightarrow> nat \<Rightarrow> ValidationResult" where
  "validateThreads [] i = Valid"
| "validateThreads (t # ts) i =
     (case validateThread t i of
        Invalid e \<Rightarrow> Invalid e
      | Valid \<Rightarrow> validateThreads ts (Suc i))"

definition validateSidecarFile :: "json \<Rightarrow> ValidationResult" where
  "validateSidecarFile data =
     (if typeof (Some data) \<noteq> T_object \<or> data = JNull then Invalid NotAnObject
      else if \<not> has_key data ''version'' \<or> typeof (get_prop (Some data) ''version'') \<noteq> T_number
      then Invalid InvalidVersionField
      else if get_prop (Some data) ''version'' \<noteq> Some (JNum CURRENT_SCHEMA_VERSION)
      then Invalid UnsupportedVersion
      else if \<not> has_key data ''threads'' \<or> \<not> isArray (get_prop (Some data) ''threads'')
      then Invalid InvalidThreadsArray
      else validateThreads (as_array (get_prop (Some data) ''threads'')) 0)"

section \<open>Sidecar storage (storage/sidecar.ts)\<close>

definition SIDECAR_EXTENSION :: string where
  "SIDECAR_EXTENSION = ''.agent-comments.json''"

definition SCHEMA_VERSION :: nat where
  "SCHEMA_VERSION = 1"

definition getPath :: "TFile \<Rightarrow> error + string" where
  "getPath documentFile =
     (if extension documentFile \<noteq> ''md'' then Inl OnlyMdSupported
      else Inr (js_slice (path documentFile) 0 (- 3) @ SIDECAR_EXTENSION))"

text \<open>
  \<open>load\<close>: \<open>getPath\<close> is called before the \<open>try\<close> block, so its error reaches the
  caller; everything inside the block is caught. The result is the \<open>threads\<close> array of
  the parsed value, as parsed (the source casts, it does not convert).
\<close>

definition load :: "(string \<Rightarrow> json option) \<Rightarrow> Vault \<Rightarrow> TFile \<Rightarrow> error + json list" where
  "load parse v documentFile =
     (case getPath documentFile of
        Inl e \<Rightarrow> Inl e
      | Inr p \<Rightarrow>
          Inr (case v p of
                 None \<Rightarrow> []
               | Some text \<Rightarrow>
                   (case parse text of
                      None \<Rightarrow> []
                    | Some data \<Rightarrow>
                        (if validateSidecarFile data \<noteq> Valid then []
                         else as_array (get_prop (Some data) ''threads'')))))"

record SidecarFile =
  version :: nat
  sidecar_documentId :: string
  sidecar_threads :: "CommentThread list"

text \<open>\<open>writeFile\<close>: \<open>JSON.stringify\<close> is a parameter; \<open>modify\<close> of an existing file and
  \<open>create\<close> of a new one both store the content.\<close>

definition writeFile ::
  "(SidecarFile \<Rightarrow> string) \<Rightarrow> Vault \<Rightarrow> string \<Rightarrow> string \<Rightarrow> CommentThread list \<Rightarrow> Vault" where
  "writeFile stringify v p documentPath ts =
     v(p \<mapsto> stringify \<lparr>version = SCHEMA_VERSION, sidecar_documentId = documentPath,
                          sidecar_threads = ts\<rparr>)"

text \<open>\<open>saveImmediate\<close>; the debounce timers of \<open>save\<close> are not part of the model.\<close>

definition saveImmediate ::
  "(SidecarFile \<Rightarrow> string) \<Rightarrow> Vault \<Rightarrow> TFile \<Rightarrow> CommentThread list \<Rightarrow> error + Vault" where
  "saveImmediate stringify v documentFile ts =
     (case getPath documentFile of
        Inl e \<Rightarrow> Inl e
      | Inr p \<Rightarrow> Inr (writeFile stringify v p (path documentFile) ts))"

text \<open>Files and a parser used in the examples.\<close>

definition text_file :: TFile where
  "text_file = \<lparr>path = ''document.txt'', extension = ''txt''\<rparr>"

definition notes_file :: TFile where
  "notes_file = \<lparr>path = ''notes.md'', extension = ''md''\<rparr>"

definition no_parse :: "string \<Rightarrow> json option" where
  "no_parse s = None"

definition empty_vault :: Vault where
  "empty_vault = Map.empty"

definition notes_vault :: Vault where
  "notes_vault = [''notes.md'' \<mapsto> ''Hello, this is a test document.'']"

text \<open>The sidecar path of a markdown document, and example contents.\<close>

definition sidecar_of :: "TFile \<Rightarrow> string" where
  "sidecar_of documentFile = js_slice (path documentFile) 0 (- 3) @ SIDECAR_EXTENSION"

definition parse_null :: "string \<Rightarrow> json option" where
  "parse_null s = Some JNull"

definition garbage_vault :: Vault where
  "garbage_vault = [''notes.agent-comments.json'' \<mapsto> ''{not json'']"

section \<open>The wrapped remote backend (models/backend.ts)\<close>

datatype BackendConnectionStatus = Disconnected | Connecting | Connected | Offline | ErrorStatus

text \<open>The payload of an outbox entry, one constructor for each shape that \<open>enqueue\<close>
  is called with.\<close>

datatype payload =
    CreateThreadPayload TextAnchor "ThreadMessage option"
  | AddMessagePayload string ThreadMessage
  | ThreadIdPayload string
  | SuggestionPayload string string

text \<open>
  The remote backend is the environment. Its behaviour is a function of the number of
  calls made to it so far: \<open>status_after n\<close> is the connection status it reports after
  \<open>n\<close> calls and \<open>fails_at n\<close> tells whether call number \<open>n\<close> rejects. \<open>calls\<close> is the
  log of the calls attempted, in order.
\<close>

record wrapped_backend =
  status_after :: "nat \<Rightarrow> BackendConnectionStatus"
  fails_at :: "nat \<Rightarrow> bool"
  calls :: "(string \<times> payload) list"

definition connectionStatus :: "wrapped_backend \<Rightarrow> BackendConnectionStatus" where
  "connectionStatus w = status_after w (length (calls w))"

text \<open>A call to the remote backend: the flag is \<open>True\<close> when the promise resolves.\<close>

definition wrapped_call :: "wrapped_backend \<Rightarrow> string \<Rightarrow> payload \<Rightarrow> bool \<times> wrapped_backend" where
  "wrapped_call w ty pl = (\<not> fails_at w (length (calls w)), w\<lparr>calls := calls w @ [(ty, pl)]\<rparr>)"

section \<open>Backend state (backend/local.ts, backend/offline.ts)\<close>

record OutboxEntry =
  entry_type :: string
  entry_payload :: payload
  entry_timestamp :: string
  retryCount :: nat

datatype notification =
    NewThread CommentThread
  | NewMessage string ThreadMessage
  | NewSuggestion string ThreadMessage

text \<open>
  The fields of \<open>LocalBackend\<close>. A callback is a flag (registered or \<open>null\<close>) and the
  calls made to the callbacks are logged in \<open>notified\<close>; a callback returns normally.
  The operations run one at a time, each to completion.
\<close>

record LocalBackend =
  activeFile :: "TFile option"
  threads :: "CommentThread list"
  anchorIndex :: AnchorIndex
  vault :: Vault
  onNewThreadCallback :: bool
  onNewMessageCallback :: bool
  onSuggestionCallback :: bool
  notified :: "notification list"

text \<open>\<open>OfflineAwareBackend\<close> has the same fields, the outbox and the wrapped backend.\<close>

record OfflineAwareBackend = LocalBackend +
  outbox :: "OutboxEntry list"
  draining :: bool
  wrapped :: wrapped_backend

definition MAX_RETRY_COUNT :: nat where
  "MAX_RETRY_COUNT = 3"

definition getThreads :: "'a LocalBackend_scheme \<Rightarrow> CommentThread list" where
  "getThreads st = threads st"

definition findThread :: "'a LocalBackend_scheme \<Rightarrow> string \<Rightarrow> CommentThread option" where
  "findThread st threadId = find (\<lambda>t. thread_id t = threadId) (threads st)"

definition findMessage :: "CommentThread \<Rightarrow> string \<Rightarrow> ThreadMessage option" where
  "findMessage thread messageId = find (\<lambda>m. msg_id m = messageId) (messages thread)"

text \<open>
  \<open>find\<close> returns a reference to the first matching object, which the operation then
  mutates: in the model the first matching element of the list is replaced.
\<close>

fun update_first :: "('a \<Rightarrow> bool) \<Rightarrow> ('a \<Rightarrow> 'a) \<Rightarrow> 'a list \<Rightarrow> 'a list" where
  "update_first P f [] = []"
| "update_first P f (x # xs) = (if P x then f x # xs else x # update_first P f xs)"

definition update_thread ::
  "string \<Rightarrow> (CommentThread \<Rightarrow> CommentThread) \<Rightarrow> 'a LocalBackend_scheme \<Rightarrow> 'a LocalBackend_scheme" where
  "update_thread threadId f st =
     st\<lparr>threads := update_first (\<lambda>t. thread_id t = threadId) f (threads st)\<rparr>"

definition set_suggestion_status ::
  "string \<Rightarrow> SuggestionStatus \<Rightarrow> CommentThread \<Rightarrow> CommentThread" where
  "set_suggestion_status messageId s thread =
     thread\<lparr>messages :=
       update_first (\<lambda>m. msg_id m = messageId)
         (\<lambda>m. m\<lparr>suggestion := map_option (\<lambda>sg. sg\<lparr>status := s\<rparr>) (suggestion m)\<rparr>)
         (messages thread)\<rparr>"

text \<open>
  The threads of \<open>threadMap\<close> are the objects of \<open>this.threads\<close>: for each id the map
  holds the last thread of the list with that id. The in-place shift of
  \<open>applyOffsetShift\<close> therefore reaches exactly these threads of the list.
\<close>

fun shift_held :: "(TextAnchor \<Rightarrow> TextAnchor) \<Rightarrow> CommentThread list \<Rightarrow> CommentThread list" where
  "shift_held f [] = []"
| "shift_held f (t # ts) =
     (if thread_id t \<in> set (map thread_id ts) then t else t\<lparr>anchor := f (anchor t)\<rparr>)
     # shift_held f ts"

text \<open>
  In the backends every thread is taken to own its anchor object: the address of the
  anchor object of a thread is the id of the thread, and the store holds for each id
  the anchor of the thread that the index holds under it.
\<close>

definition own_anchor :: "string \<Rightarrow> string" where
  "own_anchor threadId = threadId"

definition own_anchors :: "AnchorIndex \<Rightarrow> string anchor_store" where
  "own_anchors idx a =
     (case map_of (threadMap idx) a of
        Some t \<Rightarrow> anchor t
      | None \<Rightarrow> \<lparr>anchorText = [], startOffset = 0, endOffset = 0, sectionHeading = None\<rparr>)"

definition notify :: "bool \<Rightarrow> notification \<Rightarrow> 'a LocalBackend_scheme \<Rightarrow> 'a LocalBackend_scheme" where
  "notify registered n st = (if registered then st\<lparr>notified := notified st @ [n]\<rparr> else st)"

definition createThreadModel ::
  "string \<Rightarrow> string \<Rightarrow> string \<Rightarrow> TextAnchor \<Rightarrow> ThreadMessage option \<Rightarrow> CommentThread" where
  "createThreadModel newId now docId a firstMessage =
     \<lparr>thread_id = newId, documentId = docId, anchor = a, thread_status = Open,
      messages = (case firstMessage of Some m \<Rightarrow> [m] | None \<Rightarrow> []),
      createdAt = now, updatedAt = now\<rparr>"

text \<open>
  The part of \<open>acceptSuggestion\<close> that both backends share word for word, from the
  lookup of the suggestion to the save of the sidecar file. The result carries the
  state reached when the error was thrown, so that a mutation before a throw is
  visible.
\<close>

definition acceptSuggestion_local ::
  "(SidecarFile \<Rightarrow> string) \<Rightarrow> string \<Rightarrow> string \<Rightarrow> string \<Rightarrow> 'a LocalBackend_scheme
     \<Rightarrow> (error + unit) \<times> 'a LocalBackend_scheme" where
  "acceptSuggestion_local stringify now threadId messageId st =
     (case activeFile st of
        None \<Rightarrow> (Inl NoActiveDocument, st)
      | Some file \<Rightarrow>
     (case findThread st threadId of
        None \<Rightarrow> (Inl ThreadNotFound, st)
      | Some thread \<Rightarrow>
     (case findMessage thread messageId of
        None \<Rightarrow> (Inl MessageNotFound, st)
      | Some message \<Rightarrow>
     (case suggestion message of
        None \<Rightarrow> (Inl NoSuggestion, st)
      | Some sg \<Rightarrow>
     if status sg \<noteq> Pending then (Inl AlreadyDecided, st)
     else
       (let text = vault_read (vault st) file;
            currentText = js_slice text (startOffset (anchor thread)) (endOffset (anchor thread))
        in if \<not> js_includes currentText (originalText sg) then (Inl StaleSuggestion, st)
           else
             (case js_indexOf currentText (originalText sg) 0 of
                None \<Rightarrow> (Inl StaleSuggestion, st)
              | Some localIdx \<Rightarrow>
                  (let replaceStart = startOffset (anchor thread) + int localIdx;
                       replaceEnd = replaceStart + int (length (originalText sg));
                       newContent = js_slice text 0 replaceStart @ replacementText sg
                                      @ js_slice_from text replaceEnd;
                       st1 = st\<lparr>vault := vault_modify (vault st) file newContent\<rparr>;
                       delta = int (length (replacementText sg)) - int (length (originalText sg));
                       st2 = (if delta \<noteq> 0
                              then st1\<lparr>threads :=
                                         shift_held (shiftAnchor replaceStart replaceEnd delta)
                                           (threads st1),
                                       anchorIndex :=
                                         snd (applyOffsetShift own_anchor
                                                (own_anchors (anchorIndex st1)) (anchorIndex st1)
                                                replaceStart replaceEnd
                                                (int (length (replacementText sg))))\<rparr>
                              else st1);
                       st3 = update_thread threadId
                               (\<lambda>t. (set_suggestion_status messageId Accepted t)
                                      \<lparr>updatedAt := now\<rparr>) st2
                   in case saveImmediate stringify (vault st3) file (threads st3) of
                        Inl e \<Rightarrow> (Inl e, st3)
                      | Inr v' \<Rightarrow> (Inr (), st3\<lparr>vault := v'\<rparr>))))))))"

definition rejectSuggestion_local ::
  "(SidecarFile \<Rightarrow> string) \<Rightarrow> string \<Rightarrow> string \<Rightarrow> string \<Rightarrow> 'a LocalBackend_scheme
     \<Rightarrow> (error + unit) \<times> 'a LocalBackend_scheme" where
  "rejectSuggestion_local stringify now threadId messageId st =
     (case activeFile st of
        None \<Rightarrow> (Inl NoActiveDocument, st)
      | Some file \<Rightarrow>
     (case findThread st threadId of
        None \<Rightarrow> (Inl ThreadNotFound, st)
      | Some thread \<Rightarrow>
     (case findMessage thread messageId of
        None \<Rightarrow> (Inl MessageNotFound, st)
      | Some message \<Rightarrow>
     (case suggestion message of
        None \<Rightarrow> (Inl NoSuggestion, st)
      | Some sg \<Rightarrow>
     if status sg \<noteq> Pending then (Inl AlreadyDecided, st)
     else
       (let st1 = update_thread threadId
                    (\<lambda>t. (set_suggestion_status messageId Rejected t)\<lparr>updatedAt := now\<rparr>) st
        in case saveImmediate stringify (vault st1) file (threads st1) of
             Inl e \<Rightarrow> (Inl e, st1)
           | Inr v' \<Rightarrow> (Inr (), st1\<lparr>vault := v'\<rparr>))))))"

section \<open>OfflineAwareBackend: forwarding and the outbox\<close>

definition isConnected :: "OfflineAwareBackend \<Rightarrow> bool" where
  "isConnected st = (connectionStatus (wrapped st) = Connected)"

definition enqueue :: "string \<Rightarrow> payload \<Rightarrow> string \<Rightarrow> OfflineAwareBackend \<Rightarrow> OfflineAwareBackend" where
  "enqueue ty pl queuedAt st =
     st\<lparr>outbox := outbox st @
        [\<lparr>entry_type = ty, entry_payload = pl, entry_timestamp = queuedAt, retryCount = 0\<rparr>]\<rparr>"

text \<open>The block "Forward to backend (or queue)" that ends every operation.\<close>

definition forward_or_queue ::
  "string \<Rightarrow> payload \<Rightarrow> string \<Rightarrow> OfflineAwareBackend \<Rightarrow> OfflineAwareBackend" where
  "forward_or_queue ty pl queuedAt st =
     (if isConnected st
      then (case wrapped_call (wrapped st) ty pl of
              (True, w) \<Rightarrow> st\<lparr>wrapped := w\<rparr>
            | (False, w) \<Rightarrow> enqueue ty pl queuedAt (st\<lparr>wrapped := w\<rparr>))
      else enqueue ty pl queuedAt st)"

definition createThread ::
  "(SidecarFile \<Rightarrow> string) \<Rightarrow> string \<Rightarrow> string \<Rightarrow> string \<Rightarrow> TextAnchor \<Rightarrow> ThreadMessage option
     \<Rightarrow> OfflineAwareBackend \<Rightarrow> (error + CommentThread) \<times> OfflineAwareBackend" where
  "createThread stringify newId now queuedAt a firstMessage st =
     (case activeFile st of
        None \<Rightarrow> (Inl NoActiveDocument, st)
      | Some file \<Rightarrow>
          (let thread = createThreadModel newId now (path file) a firstMessage;
               st1 = st\<lparr>threads := threads st @ [thread],
                        anchorIndex := build (threads st @ [thread])\<rparr>
           in case saveImmediate stringify (vault st1) file (threads st1) of
                Inl e \<Rightarrow> (Inl e, st1)
              | Inr v' \<Rightarrow>
                  (Inr thread,
                   forward_or_queue ''createThread'' (CreateThreadPayload a firstMessage) queuedAt
                     (notify (onNewThreadCallback st1) (NewThread thread) (st1\<lparr>vault := v'\<rparr>)))))"

definition acceptSuggestion ::
  "(SidecarFile \<Rightarrow> string) \<Rightarrow> string \<Rightarrow> string \<Rightarrow> string \<Rightarrow> string \<Rightarrow> OfflineAwareBackend
     \<Rightarrow> (error + unit) \<times> OfflineAwareBackend" where
  "acceptSuggestion stringify now queuedAt threadId messageId st =
     (case acceptSuggestion_local stringify now threadId messageId st of
        (Inl e, st') \<Rightarrow> (Inl e, st')
      | (Inr u, st') \<Rightarrow>
          (Inr (), forward_or_queue ''acceptSuggestion'' (SuggestionPayload threadId messageId)
                     queuedAt st'))"

definition rejectSuggestion ::
  "(SidecarFile \<Rightarrow> string) \<Rightarrow> string \<Rightarrow> string \<Rightarrow> string \<Rightarrow> string \<Rightarrow> OfflineAwareBackend
     \<Rightarrow> (error + unit) \<times> OfflineAwareBackend" where
  "rejectSuggestion stringify now queuedAt threadId messageId st =
     (case rejectSuggestion_local stringify now threadId messageId st of
        (Inl e, st') \<Rightarrow> (Inl e, st')
      | (Inr u, st') \<Rightarrow>
          (Inr (), forward_or_queue ''rejectSuggestion'' (SuggestionPayload threadId messageId)
                     queuedAt st'))"

section \<open>OfflineAwareBackend: push events from the remote backend\<close>

text \<open>The save that is started without \<open>await\<close>: its failure is not observed.\<close>

definition save_unobserved ::
  "(SidecarFile \<Rightarrow> string) \<Rightarrow> OfflineAwareBackend \<Rightarrow> OfflineAwareBackend" where
  "save_unobserved stringify st =
     (case activeFile st of
        None \<Rightarrow> st
      | Some file \<Rightarrow>
          (case saveImmediate stringify (vault st) file (threads st) of
             Inl e \<Rightarrow> st
           | Inr v' \<Rightarrow> st\<lparr>vault := v'\<rparr>))"

text \<open>
  \<open>reanchorAndAddThread\<close> is an \<open>async\<close> function that \<open>handleIncomingThread\<close> starts
  without awaiting it. It runs up to \<open>await this.vault.read(...)\<close> inside the handler;
  everything after the \<open>await\<close> runs in a later step of the event loop, after other
  handlers may have run. The model splits the function at the \<open>await\<close>: the first part
  yields a pending continuation, the thread together with the text that the read
  delivers, and the second part resumes it.
\<close>

type_synonym pending_reanchor = "CommentThread \<times> string"

definition reanchorAndAddThread_start ::
  "TFile \<Rightarrow> CommentThread \<Rightarrow> OfflineAwareBackend \<Rightarrow> pending_reanchor" where
  "reanchorAndAddThread_start file thread st = (thread, vault_read (vault st) file)"

text \<open>After the \<open>await\<close>: the thread is re-anchored against the text and added even when
  the anchor does not resolve.\<close>

definition reanchorAndAddThread_resume ::
  "(SidecarFile \<Rightarrow> string) \<Rightarrow> pending_reanchor \<Rightarrow> OfflineAwareBackend \<Rightarrow> OfflineAwareBackend" where
  "reanchorAndAddThread_resume stringify p st =
     (let thread = fst p;
          thread' = (case resolveAnchor (anchor thread) (snd p) of
                       Some resolved \<Rightarrow>
                         thread\<lparr>anchor := (anchor thread)
                                  \<lparr>startOffset := resolved_start resolved,
                                   endOffset := resolved_end resolved\<rparr>\<rparr>
                     | None \<Rightarrow> thread);
          st1 = st\<lparr>threads := threads st @ [thread'],
                   anchorIndex := build (threads st @ [thread'])\<rparr>;
          st2 = save_unobserved stringify st1
      in notify (onNewThreadCallback st2) (NewThread thread') st2)"

text \<open>
  \<open>handleIncomingThread\<close>, the synchronous handler: the duplicate check, and then
  either the start of \<open>reanchorAndAddThread\<close> (with an active document; the thread is
  not in the thread set when the handler returns) or the immediate push.
\<close>

definition handleIncomingThread ::
  "CommentThread \<Rightarrow> OfflineAwareBackend \<Rightarrow> OfflineAwareBackend \<times> pending_reanchor option" where
  "handleIncomingThread thread st =
     (if \<exists>t \<in> set (threads st). thread_id t = thread_id thread then (st, None)
      else
        (case activeFile st of
           Some file \<Rightarrow> (st, Some (reanchorAndAddThread_start file thread st))
         | None \<Rightarrow>
             (notify (onNewThreadCallback st) (NewThread thread)
                (st\<lparr>threads := threads st @ [thread],
                    anchorIndex := build (threads st @ [thread])\<rparr>),
              None)))"

definition resume_pending ::
  "(SidecarFile \<Rightarrow> string) \<Rightarrow> pending_reanchor option \<Rightarrow> OfflineAwareBackend \<Rightarrow> OfflineAwareBackend" where
  "resume_pending stringify p st =
     (case p of None \<Rightarrow> st | Some q \<Rightarrow> reanchorAndAddThread_resume stringify q st)"

text \<open>One delivery whose continuation completes before the next event is handled.\<close>

definition deliver_thread ::
  "(SidecarFile \<Rightarrow> string) \<Rightarrow> CommentThread \<Rightarrow> OfflineAwareBackend \<Rightarrow> OfflineAwareBackend" where
  "deliver_thread stringify thread st =
     resume_pending stringify (snd (handleIncomingThread thread st))
       (fst (handleIncomingThread thread st))"

text \<open>Two deliveries where the second handler runs before the read of the first has
  completed; the continuations then resume in the order in which they were started.\<close>

definition deliver_two_interleaved ::
  "(SidecarFile \<Rightarrow> string) \<Rightarrow> CommentThread \<Rightarrow> CommentThread \<Rightarrow> OfflineAwareBackend
     \<Rightarrow> OfflineAwareBackend" where
  "deliver_two_interleaved stringify thread1 thread2 st =
     (let first = handleIncomingThread thread1 st;
          second = handleIncomingThread thread2 (fst first)
      in resume_pending stringify (snd second)
           (resume_pending stringify (snd first) (fst second)))"

definition copies_of :: "string \<Rightarrow> OfflineAwareBackend \<Rightarrow> nat" where
  "copies_of threadId st = length (filter (\<lambda>t. thread_id t = threadId) (threads st))"

definition handleIncomingMessage ::
  "(SidecarFile \<Rightarrow> string) \<Rightarrow> string \<Rightarrow> string \<Rightarrow> ThreadMessage \<Rightarrow> OfflineAwareBackend
     \<Rightarrow> OfflineAwareBackend" where
  "handleIncomingMessage stringify now threadId message st =
     (case findThread st threadId of
        None \<Rightarrow> st
      | Some thread \<Rightarrow>
          if \<exists>m \<in> set (messages thread). msg_id m = msg_id message then st
          else
            (let st1 = update_thread threadId
                         (\<lambda>t. t\<lparr>messages := messages t @ [message], updatedAt := now\<rparr>) st;
                 st2 = save_unobserved stringify st1
             in notify (onNewMessageCallback st2) (NewMessage threadId message) st2))"

definition handleIncomingSuggestion ::
  "(SidecarFile \<Rightarrow> string) \<Rightarrow> string \<Rightarrow> string \<Rightarrow> ThreadMessage \<Rightarrow> OfflineAwareBackend
     \<Rightarrow> OfflineAwareBackend" where
  "handleIncomingSuggestion stringify now threadId message st =
     (let st1 = handleIncomingMessage stringify now threadId message st
      in case findThread st1 threadId of
           None \<Rightarrow> st1
         | Some thread \<Rightarrow> notify (onSuggestionCallback st1) (NewSuggestion threadId message) st1)"

section \<open>OfflineAwareBackend: draining the outbox\<close>

definition known_types :: "string list" where
  "known_types = [''createThread'', ''addMessage'', ''resolveThread'', ''reopenThread'',
                  ''acceptSuggestion'', ''rejectSuggestion'']"

text \<open>\<open>forwardToBackend\<close>: an entry of unknown type is logged and counts as forwarded.\<close>

definition forwardToBackend :: "wrapped_backend \<Rightarrow> OutboxEntry \<Rightarrow> bool \<times> wrapped_backend" where
  "forwardToBackend w entry =
     (if entry_type entry \<in> set known_types
      then wrapped_call w (entry_type entry) (entry_payload entry)
      else (True, w))"

text \<open>
  The \<open>while\<close> loop of \<open>drainOutbox\<close>, which reads and writes only the outbox and the
  wrapped backend. Each round either removes the head and continues or stops.
\<close>

fun drain_loop :: "wrapped_backend \<Rightarrow> OutboxEntry list \<Rightarrow> wrapped_backend \<times> OutboxEntry list" where
  "drain_loop w [] = (w, [])"
| "drain_loop w (entry # rest) =
     (if connectionStatus w \<noteq> Connected then (w, entry # rest)
      else if fst (forwardToBackend w entry)
      then drain_loop (snd (forwardToBackend w entry)) rest
      else if retryCount entry + 1 \<ge> MAX_RETRY_COUNT
      then drain_loop (snd (forwardToBackend w entry)) rest
      else (snd (forwardToBackend w entry), entry\<lparr>retryCount := retryCount entry + 1\<rparr> # rest))"

definition drainOutbox :: "OfflineAwareBackend \<Rightarrow> OfflineAwareBackend" where
  "drainOutbox st =
     (if draining st \<or> outbox st = [] then st
      else st\<lparr>wrapped := fst (drain_loop (wrapped st) (outbox st)),
              outbox := snd (drain_loop (wrapped st) (outbox st)),
              draining := False\<rparr>)"

section \<open>Vocabulary for the properties of the backends\<close>

text \<open>The text of the active document inside the anchor range, as \<open>acceptSuggestion\<close>
  reads it: \<open>content.slice(startOffset, endOffset)\<close>.\<close>

definition anchor_range_text :: "string \<Rightarrow> TextAnchor \<Rightarrow> string" where
  "anchor_range_text text a = js_slice text (startOffset a) (endOffset a)"

definition is_substring :: "string \<Rightarrow> string \<Rightarrow> bool" where
  "is_substring needle haystack =
     (\<exists>i \<in> set [0..<Suc (length haystack)]. occurs_at haystack needle i)"

text \<open>
  The message \<open>messageId\<close> of thread \<open>threadId\<close> is found in a backend with an active
  document and carries the suggestion \<open>sg\<close>.
\<close>

definition suggestion_at ::
  "'a LocalBackend_scheme \<Rightarrow> string \<Rightarrow> string \<Rightarrow> TFile \<Rightarrow> CommentThread \<Rightarrow> ThreadMessage
     \<Rightarrow> Suggestion \<Rightarrow> bool" where
  "suggestion_at st threadId messageId file thread message sg =
     (activeFile st = Some file \<and> findThread st threadId = Some thread \<and>
      findMessage thread messageId = Some message \<and> suggestion message = Some sg)"

text \<open>The suggestion is pending and its original text does not occur inside the
  anchor range of the current document text.\<close>

definition stale_pending ::
  "'a LocalBackend_scheme \<Rightarrow> TFile \<Rightarrow> CommentThread \<Rightarrow> Suggestion \<Rightarrow> bool" where
  "stale_pending st file thread sg =
     (status sg = Pending \<and>
      \<not> is_substring (originalText sg)
           (anchor_range_text (vault_read (vault st) file) (anchor thread)))"

text \<open>States used in the examples: one thread anchored at "test" with a suggestion
  to replace "best", which occurs in the document only outside the anchor.\<close>

definition example_suggestion :: "SuggestionStatus \<Rightarrow> Suggestion" where
  "example_suggestion s = \<lparr>originalText = ''is'', replacementText = ''was'', status = s\<rparr>"

definition example_message :: "SuggestionStatus \<Rightarrow> ThreadMessage" where
  "example_message s =
     \<lparr>msg_id = ''m1'', author = ''agent'', authorType = Agent, content = ''fix'',
      timestamp = ''2026'', suggestion = Some (example_suggestion s), knowledgeRefs = None\<rparr>"

definition example_suggestion_thread :: "SuggestionStatus \<Rightarrow> CommentThread" where
  "example_suggestion_thread s =
     \<lparr>thread_id = ''t1'', documentId = ''notes.md'',
      anchor = \<lparr>anchorText = ''test'', startOffset = 17, endOffset = 21, sectionHeading = None\<rparr>,
      thread_status = Open, messages = [example_message s],
      createdAt = ''2026'', updatedAt = ''2026''\<rparr>"

definition example_local :: "SuggestionStatus \<Rightarrow> LocalBackend" where
  "example_local s =
     \<lparr>activeFile = Some notes_file, threads = [example_suggestion_thread s],
      anchorIndex = build [example_suggestion_thread s], vault = notes_vault,
      onNewThreadCallback = True, onNewMessageCallback = True, onSuggestionCallback = True,
      notified = []\<rparr>"

definition never_connected :: "nat \<Rightarrow> BackendConnectionStatus" where
  "never_connected n = Disconnected"

definition always_connected :: "nat \<Rightarrow> BackendConnectionStatus" where
  "always_connected n = Connected"

definition never_fails :: "nat \<Rightarrow> bool" where
  "never_fails n = False"

definition fails_first :: "nat \<Rightarrow> bool" where
  "fails_first n = (n = 0)"

definition example_wrapped ::
  "(nat \<Rightarrow> BackendConnectionStatus) \<Rightarrow> (nat \<Rightarrow> bool) \<Rightarrow> wrapped_backend" where
  "example_wrapped s f = \<lparr>status_after = s, fails_at = f, calls = []\<rparr>"

definition example_offline :: "SuggestionStatus \<Rightarrow> OfflineAwareBackend" where
  "example_offline s =
     \<lparr>activeFile = Some notes_file, threads = [example_suggestion_thread s],
      anchorIndex = build [example_suggestion_thread s], vault = notes_vault,
      onNewThreadCallback = True, onNewMessageCallback = True, onSuggestionCallback = True,
      notified = [],
      outbox = [], draining = False, wrapped = example_wrapped never_connected never_fails\<rparr>"

definition example_stringify :: "SidecarFile \<Rightarrow> string" where
  "example_stringify f = ''{}''"


definition example_anchor :: TextAnchor where
  "example_anchor =
     \<lparr>anchorText = ''Hello'', startOffset = 0, endOffset = 5, sectionHeading = None\<rparr>"


text \<open>Vocabulary for the drain: the remote call an entry stands for, whether
  \<open>forwardToBackend\<close> knows its type, and the entry after one more failed attempt.\<close>

definition entry_call :: "OutboxEntry \<Rightarrow> string \<times> payload" where
  "entry_call e = (entry_type e, entry_payload e)"

definition known_entry :: "OutboxEntry \<Rightarrow> bool" where
  "known_entry e = (entry_type e \<in> set known_types)"

definition failed_once_more :: "OutboxEntry \<Rightarrow> OutboxEntry" where
  "failed_once_more e = e\<lparr>retryCount := retryCount e + 1\<rparr>"

text \<open>Examples: a thread and a message that are new to the example state, and an
  outbox of two entries in front of a connected backend whose first call fails.\<close>

definition incoming_thread :: CommentThread where
  "incoming_thread = createThreadModel ''t9'' ''2026'' ''notes.md'' example_anchor None"

definition incoming_message :: ThreadMessage where
  "incoming_message =
     \<lparr>msg_id = ''m9'', author = ''agent'', authorType = Agent, content = ''reply'',
      timestamp = ''2026'', suggestion = None, knowledgeRefs = None\<rparr>"

definition example_entry :: "string \<Rightarrow> payload \<Rightarrow> nat \<Rightarrow> OutboxEntry" where
  "example_entry ty pl n =
     \<lparr>entry_type = ty, entry_payload = pl, entry_timestamp = ''2026'', retryCount = n\<rparr>"

definition drain_example :: "nat \<Rightarrow> OfflineAwareBackend" where
  "drain_example n =
     (example_offline Pending)
       \<lparr>outbox := [example_entry ''createThread'' (CreateThreadPayload example_anchor None) n,
                   example_entry ''resolveThread'' (ThreadIdPayload ''t1'') 0],
        wrapped := example_wrapped always_connected fails_first\<rparr>"


text \<open>The example backend after \<open>setActiveDocument\<close> was called with a text file: the
  call assigns \<open>activeFile\<close> before \<open>load\<close> rejects the file.\<close>

definition text_offline :: OfflineAwareBackend where
  "text_offline = (example_offline Pending)\<lparr>activeFile := Some text_file\<rparr>"

section \<open>The text-search layer returns the closest occurrence\<close>

lemma take_eq_length: "take (length n) xs = n \<Longrightarrow> length n \<le> length xs"
proof -
  assume "take (length n) xs = n"
  then have "length (take (length n) xs) = length n" by simp
  then show ?thesis by simp
qed

lemma find_from_Some:
  "find_from n h pos = Some i \<Longrightarrow>
     pos \<le> i \<and> i - pos \<le> length h \<and> take (length n) (drop (i - pos) h) = n \<and>
     (\<forall>j < i - pos. take (length n) (drop j h) \<noteq> n)"
proof (induction h arbitrary: pos)
  case Nil
  then show ?case by (auto split: if_splits)
next
  case (Cons c cs)
  show ?case
  proof (cases "take (length n) (c # cs) = n")
    case True
    with Cons.prems show ?thesis by simp
  next
    case False
    with Cons.prems have r: "find_from n cs (Suc pos) = Some i" by simp
    from Cons.IH [OF r] have ih: "Suc pos \<le> i" "i - Suc pos \<le> length cs"
      "take (length n) (drop (i - Suc pos) cs) = n"
      "\<forall>j < i - Suc pos. take (length n) (drop j cs) \<noteq> n" by auto
    from ih(1) have e: "i - pos = Suc (i - Suc pos)" by simp
    have "\<forall>j < i - pos. take (length n) (drop j (c # cs)) \<noteq> n"
    proof (intro allI impI)
      fix j assume "j < i - pos"
      then show "take (length n) (drop j (c # cs)) \<noteq> n"
        using False ih(4) e by (cases j) auto
    qed
    with ih e show ?thesis by auto
  qed
qed

lemma find_from_None:
  "find_from n h pos = None \<Longrightarrow> j \<le> length h \<Longrightarrow> take (length n) (drop j h) \<noteq> n"
proof (induction h arbitrary: pos j)
  case Nil
  then show ?case by (auto split: if_splits)
next
  case (Cons c cs)
  from Cons.prems(1) have f: "take (length n) (c # cs) \<noteq> n"
    and r: "find_from n cs (Suc pos) = None" by (auto split: if_splits)
  show ?case
  proof (cases j)
    case 0
    with f show ?thesis by simp
  next
    case (Suc k)
    with Cons.prems(2) have "k \<le> length cs" by simp
    from Cons.IH [OF r this] Suc show ?thesis by simp
  qed
qed

lemma js_indexOf_Some:
  assumes "from \<le> length h" and "js_indexOf h n from = Some i"
  shows "from \<le> i \<and> occurs_at h n i \<and> (\<forall>j. from \<le> j \<and> j < i \<longrightarrow> \<not> occurs_at h n j)"
proof -
  from assms have f: "find_from n (drop from h) from = Some i"
    by (simp add: js_indexOf_def min_def)
  from find_from_Some [OF f] have a: "from \<le> i" "i - from \<le> length h - from"
    "take (length n) (drop (i - from) (drop from h)) = n"
    "\<forall>j < i - from. take (length n) (drop j (drop from h)) \<noteq> n" by auto
  from a(1) a(3) have t: "take (length n) (drop i h) = n" by (simp add: add.commute)
  from take_eq_length [OF t] a(1,2) assms(1) have "i + length n \<le> length h" by simp
  with t have o: "occurs_at h n i" by (simp add: occurs_at_def)
  have "\<forall>j. from \<le> j \<and> j < i \<longrightarrow> \<not> occurs_at h n j"
  proof (intro allI impI)
    fix j assume j: "from \<le> j \<and> j < i"
    then have "j - from < i - from" by linarith
    with a(4) have "take (length n) (drop (j - from) (drop from h)) \<noteq> n" by blast
    with j show "\<not> occurs_at h n j" by (simp add: occurs_at_def add.commute)
  qed
  with a(1) o show ?thesis by blast
qed

lemma js_indexOf_None:
  assumes "from \<le> length h" and "js_indexOf h n from = None" and "from \<le> j"
  shows "\<not> occurs_at h n j"
proof
  assume o: "occurs_at h n j"
  from assms have f: "find_from n (drop from h) from = None"
    by (simp add: js_indexOf_def min_def)
  from o have "j \<le> length h" by (simp add: occurs_at_def)
  with assms(3) have "j - from \<le> length (drop from h)" by simp
  from find_from_None [OF f this] assms(3) o show False
    by (simp add: occurs_at_def add.commute)
qed


lemma best_upto_final:
  assumes "best_upto h n p sf bo bd" and "\<forall>j \<ge> sf. \<not> occurs_at h n j"
  shows "leftmost_closest h n p bo"
proof (cases bo)
  case None
  with assms show ?thesis
    by (auto simp: best_upto_def leftmost_closest_def) (meson not_le)
next
  case (Some b)
  with assms show ?thesis
    by (auto simp: best_upto_def leftmost_closest_def) (meson not_le)
qed

lemma best_upto_step:
  assumes inv: "best_upto h n p sf bo bd"
    and idx: "sf \<le> idx" "occurs_at h n idx" "\<forall>j. sf \<le> j \<and> j < idx \<longrightarrow> \<not> occurs_at h n j"
  shows "closer (distance_to p idx) bd \<Longrightarrow>
           best_upto h n p (idx + 1) (Some idx) (Some (distance_to p idx))"
    and "\<not> closer (distance_to p idx) bd \<Longrightarrow> best_upto h n p (idx + 1) bo bd"
proof -
  have split: "\<And>j. j < idx + 1 \<Longrightarrow> occurs_at h n j \<Longrightarrow> j < sf \<or> j = idx"
    using idx(3) by (metis Suc_eq_plus1 less_Suc_eq not_le)
  {
    assume c: "closer (distance_to p idx) bd"
    show "best_upto h n p (idx + 1) (Some idx) (Some (distance_to p idx))"
    proof (cases bo)
      case None
      with inv have "\<forall>j < sf. \<not> occurs_at h n j" by (simp add: best_upto_def)
      with split idx(2) show ?thesis
        by (auto simp: best_upto_def better_eq_def)
    next
      case (Some b)
      with inv have bd: "bd = Some (distance_to p b)"
        and old: "\<forall>j < sf. occurs_at h n j \<longrightarrow> better_eq p b j" by (simp_all add: best_upto_def)
      from c bd have lt: "distance_to p idx < distance_to p b" by (simp add: closer_def)
      have "\<forall>j < idx + 1. occurs_at h n j \<longrightarrow> better_eq p idx j"
      proof (intro allI impI)
        fix j assume j: "j < idx + 1" "occurs_at h n j"
        from split [OF j] show "better_eq p idx j"
        proof
          assume "j < sf"
          with old j(2) have "better_eq p b j" by blast
          with lt show ?thesis by (auto simp: better_eq_def)
        next
          assume "j = idx"
          then show ?thesis by (simp add: better_eq_def)
        qed
      qed
      with idx(2) show ?thesis by (simp add: best_upto_def)
    qed
  }
  {
    assume c: "\<not> closer (distance_to p idx) bd"
    then obtain d where bd: "bd = Some d" and ge: "d \<le> distance_to p idx"
      by (cases bd) (auto simp: closer_def)
    with inv obtain b where b: "bo = Some b" "d = distance_to p b" "occurs_at h n b" "b < sf"
      and old: "\<forall>j < sf. occurs_at h n j \<longrightarrow> better_eq p b j"
      by (cases bo) (auto simp: best_upto_def)
    from b(4) idx(1) have bsf: "b < idx" by simp
    have "\<forall>j < idx + 1. occurs_at h n j \<longrightarrow> better_eq p b j"
    proof (intro allI impI)
      fix j assume j: "j < idx + 1" "occurs_at h n j"
      from split [OF j] show "better_eq p b j"
      proof
        assume "j < sf"
        with old j(2) show ?thesis by blast
      next
        assume "j = idx"
        with ge b(2) bsf show ?thesis by (auto simp: better_eq_def)
      qed
    qed
    with b bd bsf show "best_upto h n p (idx + 1) bo bd" by (simp add: best_upto_def)
  }
qed


lemma findClosestMatch_loop_closest:
  "n \<noteq> [] \<Longrightarrow> best_upto h n p sf bo bd \<Longrightarrow>
     leftmost_closest h n p (findClosestMatch_loop n h p sf bo bd)"
proof (induction n h p sf bo bd rule: findClosestMatch_loop.induct)
  case (1 n h p sf bo bd)
  show ?case
  proof (cases "int sf \<le> int (length h) - int (length n)")
    case False
    then have "\<forall>j \<ge> sf. \<not> occurs_at h n j" by (auto simp: occurs_at_def)
    from best_upto_final [OF "1.prems"(2) this] False show ?thesis
      by (simp add: findClosestMatch_loop.simps [of n h p sf bo bd])
  next
    case True
    then have le: "sf \<le> length h" by linarith
    show ?thesis
    proof (cases "js_indexOf h n sf")
      case None
      with le have "\<forall>j \<ge> sf. \<not> occurs_at h n j" using js_indexOf_None by blast
      from best_upto_final [OF "1.prems"(2) this] True None show ?thesis
        by (simp add: findClosestMatch_loop.simps [of n h p sf bo bd])
    next
      case (Some idx)
      from js_indexOf_Some [OF le Some]
      have i: "sf \<le> idx" "occurs_at h n idx" "\<forall>j. sf \<le> j \<and> j < idx \<longrightarrow> \<not> occurs_at h n j"
        by auto
      note step = best_upto_step [OF "1.prems"(2) i]
      show ?thesis
      proof (cases "closer (distance_to p idx) bd")
        case c: True
        from "1.IH"(1) [OF True Some refl _ "1.prems"(1)] c step(1) [OF c]
        have "leftmost_closest h n p
                (findClosestMatch_loop n h p (idx + 1) (Some idx) (Some \<bar>int idx - p\<bar>))"
          by (simp add: distance_to_def)
        with True Some c show ?thesis
          by (simp add: distance_to_def Let_def findClosestMatch_loop.simps [of n h p sf bo bd])
      next
        case c: False
        from "1.IH"(2) [OF True Some refl _ "1.prems"(1)] c step(2) [OF c]
        have "leftmost_closest h n p (findClosestMatch_loop n h p (idx + 1) bo bd)"
          by (simp add: distance_to_def)
        with True Some c show ?thesis
          by (simp add: distance_to_def Let_def findClosestMatch_loop.simps [of n h p sf bo bd])
      qed
    qed
  qed
qed

lemma findClosestMatch_closest:
  "n \<noteq> [] \<Longrightarrow> leftmost_closest h n p (findClosestMatch n h p)"
  unfolding findClosestMatch_def
  using findClosestMatch_loop_closest [of n h p 0 None None]
  by (simp add: best_upto_def)


text \<open>
  Claim C4. When the anchor text is not empty, the exact-offset layer fails and the
  anchor text occurs somewhere in the document, \<open>resolveAnchor\<close> answers with a
  \<open>text-search\<close> result: its start is an occurrence of the anchor text whose distance
  to the recorded \<open>startOffset\<close> is minimal among all occurrences, and its end is the
  start plus the length of the anchor text.
\<close>

theorem resolveAnchor_text_search_closest:
  assumes "anchorText a \<noteq> []" and "\<not> exactMatch a doc"
    and "\<exists>i. occurs_at doc (anchorText a) i"
  shows "\<exists>i. resolveAnchor a doc =
               Some \<lparr>resolved_start = int i,
                     resolved_end = int i + int (length (anchorText a)),
                     resolved_method = TextSearch\<rparr> \<and>
             occurs_at doc (anchorText a) i \<and>
             (\<forall>j. occurs_at doc (anchorText a) j \<longrightarrow>
                  \<bar>int i - startOffset a\<bar> \<le> \<bar>int j - startOffset a\<bar>)"
proof -
  from assms(3) obtain k where k: "occurs_at doc (anchorText a) k" by blast
  then have ne: "length doc \<noteq> 0" using assms(1) by (auto simp: occurs_at_def)
  from findClosestMatch_closest [OF assms(1), of doc "startOffset a"] k
  obtain b where b: "findClosestMatch (anchorText a) doc (startOffset a) = Some b"
    and ob: "occurs_at doc (anchorText a) b"
    and best: "\<forall>j. occurs_at doc (anchorText a) j \<longrightarrow> better_eq (startOffset a) b j"
    by (cases "findClosestMatch (anchorText a) doc (startOffset a)")
       (auto simp: leftmost_closest_def)
  from best have "\<forall>j. occurs_at doc (anchorText a) j \<longrightarrow>
      \<bar>int b - startOffset a\<bar> \<le> \<bar>int j - startOffset a\<bar>"
    by (auto simp: better_eq_def distance_to_def)
  with ne assms(2) b ob show ?thesis by (auto simp: resolveAnchor_def)
qed

theorem resolveAnchor_text_search_closest_witness:
  "\<exists>i. resolveAnchor \<lparr>anchorText = ''ab'', startOffset = 4, endOffset = 6, sectionHeading = None\<rparr>
         ''ab_x_ab'' =
        Some \<lparr>resolved_start = int i, resolved_end = int i + 2, resolved_method = TextSearch\<rparr> \<and>
       occurs_at ''ab_x_ab'' ''ab'' i \<and>
       (\<forall>j. occurs_at ''ab_x_ab'' ''ab'' j \<longrightarrow> \<bar>int i - 4\<bar> \<le> \<bar>int j - 4\<bar>)"
proof -
  have o: "\<exists>i. occurs_at ''ab_x_ab'' ''ab'' i"
    by (rule exI [of _ 0]) (simp add: occurs_at_def)
  show ?thesis
    using resolveAnchor_text_search_closest
      [of "\<lparr>anchorText = ''ab'', startOffset = 4, endOffset = 6, sectionHeading = None\<rparr>"
          "''ab_x_ab''"] o
    by (simp add: exactMatch_def js_slice_def js_index_def)
qed

text \<open>
  Claim C10. Tie-break of the text-search layer: when two occurrences \<open>i < j\<close> of a
  non-empty anchor text lie at the same, minimal distance from the recorded
  \<open>startOffset\<close> and the exact layer fails, \<open>resolveAnchor\<close> returns the leftmost
  one, \<open>i\<close>.
\<close>

theorem resolveAnchor_tie_leftmost:
  assumes "anchorText a \<noteq> []" and "\<not> exactMatch a doc"
    and "occurs_at doc (anchorText a) i" and "occurs_at doc (anchorText a) j" and "i < j"
    and "\<bar>int i - startOffset a\<bar> = \<bar>int j - startOffset a\<bar>"
    and "\<forall>k. occurs_at doc (anchorText a) k \<longrightarrow>
           \<bar>int i - startOffset a\<bar> \<le> \<bar>int k - startOffset a\<bar>"
  shows "resolveAnchor a doc =
           Some \<lparr>resolved_start = int i,
                 resolved_end = int i + int (length (anchorText a)),
                 resolved_method = TextSearch\<rparr>"
proof -
  from assms(3) have ne: "length doc \<noteq> 0" using assms(1) by (auto simp: occurs_at_def)
  from findClosestMatch_closest [OF assms(1), of doc "startOffset a"] assms(3)
  obtain b where b: "findClosestMatch (anchorText a) doc (startOffset a) = Some b"
    and ob: "occurs_at doc (anchorText a) b"
    and best: "\<forall>k. occurs_at doc (anchorText a) k \<longrightarrow> better_eq (startOffset a) b k"
    by (cases "findClosestMatch (anchorText a) doc (startOffset a)")
       (auto simp: leftmost_closest_def)
  from best assms(3) have "better_eq (startOffset a) b i" by blast
  moreover from assms(7) ob
  have "\<bar>int i - startOffset a\<bar> \<le> \<bar>int b - startOffset a\<bar>" by blast
  ultimately have bi: "b \<le> i" "\<bar>int b - startOffset a\<bar> = \<bar>int i - startOffset a\<bar>"
    by (auto simp: better_eq_def distance_to_def)
  with assms(5,6) have "b = i" by linarith
  with ne assms(2) b show ?thesis by (simp add: resolveAnchor_def)
qed

theorem resolveAnchor_tie_leftmost_witness:
  "resolveAnchor \<lparr>anchorText = ''a'', startOffset = 1, endOffset = 2, sectionHeading = None\<rparr>
     ''aXa'' =
   Some \<lparr>resolved_start = 0, resolved_end = 1, resolved_method = TextSearch\<rparr>"
proof -
  have all: "\<forall>k. occurs_at ''aXa'' ''a'' k \<longrightarrow> \<bar>int 0 - 1\<bar> \<le> \<bar>int k - 1\<bar>"
  proof (intro allI impI)
    fix k assume "occurs_at ''aXa'' ''a'' k"
    then have "k \<noteq> 1" by (auto simp: occurs_at_def)
    then show "\<bar>int 0 - 1\<bar> \<le> \<bar>int k - 1\<bar>" by auto
  qed
  show ?thesis
    using resolveAnchor_tie_leftmost
      [of "\<lparr>anchorText = ''a'', startOffset = 1, endOffset = 2, sectionHeading = None\<rparr>"
          "''aXa''" 0 2] all
    by (simp add: exactMatch_def js_slice_def js_index_def occurs_at_def)
qed

section \<open>Empty anchor text\<close>

lemma js_slice_nat:
  "i \<le> j \<Longrightarrow> j \<le> length s \<Longrightarrow> js_slice s (int i) (int j) = take (j - i) (drop i s)"
  by (simp add: js_slice_def js_index_def Let_def)

lemma exactMatch_nonempty: "exactMatch a doc \<Longrightarrow> anchorText a \<noteq> []"
proof -
  assume m: "exactMatch a doc"
  then have r: "0 \<le> startOffset a" "endOffset a \<le> int (length doc)"
    "startOffset a < endOffset a"
    and sl: "js_slice doc (startOffset a) (endOffset a) = anchorText a"
    by (simp_all add: exactMatch_def)
  from r obtain i j where ij: "startOffset a = int i" "endOffset a = int j"
    by (metis nonneg_int_cases less_imp_le order_trans)
  with r have b: "i < j" "j \<le> length doc" by simp_all
  then have "length (js_slice doc (int i) (int j)) = j - i"
    by (simp add: js_slice_nat)
  with b sl ij show ?thesis by auto
qed

lemma resolveAnchor_empty_without_heading:
  "anchorText a = [] \<Longrightarrow> truthy_heading (sectionHeading a) = None \<Longrightarrow> resolveAnchor a doc = None"
  using exactMatch_nonempty [of a doc]
  by (auto simp: resolveAnchor_def findClosestMatch_def)

text \<open>
  Claim C8. An anchor whose anchor text is empty is expected never to resolve. The
  text-search layer refuses an empty needle and the exact layer cannot match it, but
  the heading fallback searches the section for the empty string, which
  \<open>indexOf\<close> finds at position 0: with a recorded heading that occurs in the document
  the anchor resolves to the heading's offset, tagged \<open>heading-fallback\<close>.
\<close>

theorem resolveAnchor_empty_anchorText_heading:
  "resolveAnchor \<lparr>anchorText = '''', startOffset = 0, endOffset = 0,
                   sectionHeading = Some ''# T''\<rparr> ''# T''
   = Some \<lparr>resolved_start = 0, resolved_end = 0, resolved_method = HeadingFallback\<rparr>"
  by (simp add: resolveAnchor_def exactMatch_def findClosestMatch_def truthy_heading_def
      resolveViaHeading_def js_indexOf_def js_slice_def js_slice_from_def js_index_def Let_def
      headingLevel_def hashes_def)

section \<open>Offset shifts of the anchor index\<close>

lemma map_set_keys:
  "map fst (map_set m k v) = (if k \<in> set (map fst m) then map fst m else map fst m @ [k])"
  by (induction m) (auto simp: rev_image_eqI)

lemma pairs_of_values:
  "\<forall>(k, t) \<in> set m. k = f t \<Longrightarrow> map (\<lambda>t. (f t, t)) (map snd m) = m"
  by (induction m) auto

lemma map_set_fresh: "k \<notin> set (map fst m) \<Longrightarrow> map_set m k v = m @ [(k, v)]"
  by (induction m) auto

lemma map_set_members: "(k', v') \<in> set (map_set m k v) \<Longrightarrow> (k', v') \<in> set m \<or> (k', v') = (k, v)"
  by (induction m) (auto split: if_splits)

lemma build_step_wf: "index_wf idx \<Longrightarrow> index_wf (build_step idx t)"
  unfolding index_wf_def build_step_def
  by (auto simp: map_set_keys dest: map_set_members)

lemma foldl_build_step_wf: "index_wf acc \<Longrightarrow> index_wf (foldl build_step acc ts)"
  by (induction ts arbitrary: acc) (auto simp: build_step_wf)

lemma build_wf: "index_wf (build ts)"
  unfolding build_def by (rule foldl_build_step_wf) (simp add: index_wf_def empty_index_def)

lemma foldl_build_step_members:
  "(k, t) \<in> set (threadMap (foldl build_step acc ts)) \<Longrightarrow>
     (k, t) \<in> set (threadMap acc) \<or> (t \<in> set ts \<and> k = thread_id t)"
proof (induction ts arbitrary: acc)
  case Nil
  then show ?case by simp
next
  case (Cons x xs)
  from Cons.IH [of "build_step acc x"] Cons.prems
  show ?case by (auto simp: build_step_def dest: map_set_members)
qed

lemma foldl_build_step_tree_mono:
  "e \<in> set (tree acc) \<Longrightarrow> e \<in> set (tree (foldl build_step acc ts))"
  by (induction ts arbitrary: acc) (auto simp: build_step_def)

lemma foldl_build_step_tree:
  "t \<in> set ts \<Longrightarrow> startOffset (anchor t) < endOffset (anchor t) \<Longrightarrow>
     ((startOffset (anchor t), endOffset (anchor t)), thread_id t)
       \<in> set (tree (foldl build_step acc ts))"
proof (induction ts arbitrary: acc)
  case Nil
  then show ?case by simp
next
  case (Cons x xs)
  show ?case
  proof (cases "t = x")
    case True
    with Cons.prems(2)
    have "((startOffset (anchor t), endOffset (anchor t)), thread_id t)
            \<in> set (tree (build_step acc x))" by (simp add: build_step_def)
    then show ?thesis by (simp add: foldl_build_step_tree_mono)
  next
    case False
    with Cons.prems have "t \<in> set xs" by simp
    from Cons.IH [OF this Cons.prems(2)] show ?thesis by simp
  qed
qed

lemma foldl_build_step_distinct:
  "distinct (map thread_id ts) \<Longrightarrow> set (map thread_id ts) \<inter> set (map fst (threadMap acc)) = {} \<Longrightarrow>
     threadMap (foldl build_step acc ts) = threadMap acc @ map (\<lambda>t. (thread_id t, t)) ts"
proof (induction ts arbitrary: acc)
  case Nil
  then show ?case by simp
next
  case (Cons x xs)
  from Cons.prems(2) have fresh: "thread_id x \<notin> set (map fst (threadMap acc))" by auto
  then have step: "threadMap (build_step acc x) = threadMap acc @ [(thread_id x, x)]"
    by (simp add: build_step_def map_set_fresh)
  from Cons.prems have "distinct (map thread_id xs)"
    and "set (map thread_id xs) \<inter> set (map fst (threadMap (build_step acc x))) = {}"
    by (auto simp: step)
  from Cons.IH [OF this] step show ?case by simp
qed

lemma build_distinct:
  "distinct (map thread_id ts) \<Longrightarrow> threadMap (build ts) = map (\<lambda>t. (thread_id t, t)) ts"
  unfolding build_def using foldl_build_step_distinct [of ts empty_index]
  by (simp add: empty_index_def)

lemma index_wf_values:
  assumes "index_wf idx"
  shows "distinct (map thread_id (map_values (threadMap idx)))"
    and "threadMap idx = map (\<lambda>t. (thread_id t, t)) (map_values (threadMap idx))"
proof -
  from assms have d: "distinct (map fst (threadMap idx))"
    and k: "\<forall>(k, t) \<in> set (threadMap idx). k = thread_id t" by (auto simp: index_wf_def)
  from k have e: "map (\<lambda>t. (thread_id t, t)) (map snd (threadMap idx)) = threadMap idx"
    by (rule pairs_of_values)
  show "threadMap idx = map (\<lambda>t. (thread_id t, t)) (map_values (threadMap idx))"
    using e by (simp add: map_values_def)
  from k have m: "map thread_id (map snd (threadMap idx)) = map fst (threadMap idx)" by auto
  show "distinct (map thread_id (map_values (threadMap idx)))"
    unfolding map_values_def m by (rule d)
qed


lemma applyOffsetShift_is_build:
  "\<exists>ts'. snd (applyOffsetShift anchorOf store (build ts) changeFrom changeTo insertLength)
           = build ts'"
  by (auto simp: applyOffsetShift_def Let_def)

lemma foldl_shift_count:
  "foldl (shift_in_place anchorOf cf ct d) store vs a =
     ((shiftAnchor cf ct d) ^^ length (filter (\<lambda>th. anchorOf (thread_id th) = a) vs)) (store a)"
proof (induction vs arbitrary: store)
  case Nil
  then show ?case by simp
next
  case (Cons x xs)
  let ?g = "shiftAnchor cf ct d"
  let ?n = "length (filter (\<lambda>th. anchorOf (thread_id th) = a) xs)"
  define store1 where "store1 = shift_in_place anchorOf cf ct d store x"
  have s1: "store1 a = (if anchorOf (thread_id x) = a then ?g (store a) else store a)"
    by (auto simp: store1_def shift_in_place_def)
  have "foldl (shift_in_place anchorOf cf ct d) store (x # xs) a
          = foldl (shift_in_place anchorOf cf ct d) store1 xs a"
    by (simp add: store1_def)
  also have "\<dots> = (?g ^^ ?n) (store1 a)" by (rule Cons.IH)
  finally show ?case by (simp add: s1 funpow_swap1)
qed

lemma filter_distinct_key:
  "distinct (map f xs) \<Longrightarrow> x \<in> set xs \<Longrightarrow> filter (\<lambda>y. f y = f x) xs = [x]"
proof (induction xs)
  case Nil
  then show ?case by simp
next
  case (Cons y ys)
  show ?case
  proof (cases "y = x")
    case True
    with Cons.prems(1) have "f x \<notin> f ` set ys" by simp
    then have "\<forall>z \<in> set ys. f z \<noteq> f x" by (metis imageI)
    then have "filter (\<lambda>y. f y = f x) ys = []" by (simp add: filter_empty_conv)
    with True show ?thesis by simp
  next
    case False
    with Cons.prems have "x \<in> set ys" "distinct (map f ys)" "f y \<noteq> f x" by auto
    with Cons.IH show ?thesis by simp
  qed
qed

lemma foldl_build_step_tree_eq:
  "tree (foldl build_step acc ts) =
     tree acc @ map (\<lambda>t. ((startOffset (anchor t), endOffset (anchor t)), thread_id t))
                  (filter (\<lambda>t. startOffset (anchor t) < endOffset (anchor t)) ts)"
  by (induction ts arbitrary: acc) (auto simp: build_step_def)

lemma build_tree:
  "tree (build ts) =
     map (\<lambda>t. ((startOffset (anchor t), endOffset (anchor t)), thread_id t))
       (filter (\<lambda>t. startOffset (anchor t) < endOffset (anchor t)) ts)"
  by (simp add: build_def foldl_build_step_tree_eq empty_index_def)


text \<open>
  Claim C3, as stated, fails for an anchor object that two threads of the index share.
  Both threads refer to the anchor \<open>[10, 14)\<close>, which starts after the change
  \<open>[0, 5)\<close>; seven characters are inserted, so \<open>delta = 2\<close>. The loop shifts the object
  once for each thread: the interval becomes \<open>[14, 18)\<close> and not \<open>[12, 16)\<close>.
\<close>

theorem applyOffsetShift_shared_anchor_shifted_twice:
  "(''t1'', example_thread 10 14)
     \<in> set (threadMap (build [example_thread 10 14, example_thread2 10 14])) \<and>
   store_10_14 (one_anchor_object ''t1'') = anchor (example_thread 10 14) \<and>
   startOffset (anchor (example_thread 10 14)) \<ge> 5 \<and>
   fst (applyOffsetShift one_anchor_object store_10_14
          (build [example_thread 10 14, example_thread2 10 14]) 0 5 7) 0
     = anchor (example_thread 14 18) \<and>
   map_of (threadMap (snd (applyOffsetShift one_anchor_object store_10_14
                             (build [example_thread 10 14, example_thread2 10 14]) 0 5 7))) ''t1''
     = Some (example_thread 14 18)"
  by (simp add: applyOffsetShift_def build_def build_step_def empty_index_def map_values_def
      shift_in_place_def with_anchor_def shiftAnchor_def one_anchor_object_def store_10_14_def
      example_thread_def example_thread2_def Let_def)

text \<open>
  Claim C3, amended. Every index is the result of \<open>build\<close>. Let the thread \<open>t\<close> be held
  in the index under key \<open>k\<close> with the current content \<open>[s, e)\<close> of its anchor object,
  let no other thread of the index refer to that anchor object, and let \<open>s\<close> be at or
  after \<open>changeTo\<close>. After \<open>applyOffsetShift changeFrom changeTo insertLength\<close> the anchor
  object holds \<open>[s + delta, e + delta)\<close>, where
  \<open>delta = insertLength - (changeTo - changeFrom)\<close>, the index holds under \<open>k\<close> the same
  thread with that anchor, the interval tree holds the shifted interval when it is not
  empty, and after a rebuild (\<open>delta \<noteq> 0\<close>) it holds no other interval for \<open>k\<close>.
\<close>

theorem applyOffsetShift_after_change:
  assumes held: "(k, t) \<in> set (threadMap (build ts))"
    and current: "store (anchorOf k) = anchor t"
    and unshared: "\<forall>(k', t') \<in> set (threadMap (build ts)). anchorOf k' = anchorOf k \<longrightarrow> k' = k"
    and after: "startOffset (anchor t) \<ge> changeTo"
  shows "fst (applyOffsetShift anchorOf store (build ts) changeFrom changeTo insertLength)
           (anchorOf k) =
           (anchor t)
             \<lparr>startOffset := startOffset (anchor t) + (insertLength - (changeTo - changeFrom)),
              endOffset := endOffset (anchor t) + (insertLength - (changeTo - changeFrom))\<rparr> \<and>
         map_of (threadMap (snd (applyOffsetShift anchorOf store (build ts)
                                   changeFrom changeTo insertLength))) k =
           Some (t\<lparr>anchor := (anchor t)
                   \<lparr>startOffset := startOffset (anchor t) + (insertLength - (changeTo - changeFrom)),
                    endOffset := endOffset (anchor t) + (insertLength - (changeTo - changeFrom))\<rparr>\<rparr>) \<and>
         (startOffset (anchor t) < endOffset (anchor t) \<longrightarrow>
            ((startOffset (anchor t) + (insertLength - (changeTo - changeFrom)),
              endOffset (anchor t) + (insertLength - (changeTo - changeFrom))), k)
              \<in> set (tree (snd (applyOffsetShift anchorOf store (build ts)
                                   changeFrom changeTo insertLength)))) \<and>
         (insertLength - (changeTo - changeFrom) \<noteq> 0 \<longrightarrow>
            filter (\<lambda>entry. snd entry = k)
              (tree (snd (applyOffsetShift anchorOf store (build ts)
                            changeFrom changeTo insertLength))) =
              (if startOffset (anchor t) < endOffset (anchor t)
               then [((startOffset (anchor t) + (insertLength - (changeTo - changeFrom)),
                       endOffset (anchor t) + (insertLength - (changeTo - changeFrom))), k)]
               else []))"
proof -
  define delta where "delta = insertLength - (changeTo - changeFrom)"
  define vs where "vs = map_values (threadMap (build ts))"
  define store' where
    "store' = foldl (shift_in_place anchorOf changeFrom changeTo delta) store vs"
  define sh where "sh = with_anchor anchorOf store'"
  define iv where "iv = (\<lambda>x::CommentThread.
     ((startOffset (anchor x), endOffset (anchor x)), thread_id x))"
  define ne where "ne = (\<lambda>x::CommentThread. startOffset (anchor x) < endOffset (anchor x))"
  note wf = index_wf_values [OF build_wf, of ts, folded vs_def]
  from held wf(2) have tv: "t \<in> set vs" and kt: "k = thread_id t" by auto
  from held have tts: "t \<in> set ts"
    using foldl_build_step_members [of k t empty_index ts]
    by (auto simp: build_def empty_index_def)
  show ?thesis
  proof (cases "delta = 0")
    case True
    from wf(1) wf(2) have "distinct (map fst (threadMap (build ts)))"
      by (metis (no_types, lifting) build_wf index_wf_def)
    with held have "map_of (threadMap (build ts)) k = Some t" by simp
    moreover have "startOffset (anchor t) < endOffset (anchor t) \<longrightarrow>
        ((startOffset (anchor t), endOffset (anchor t)), k) \<in> set (tree (build ts))"
      using foldl_build_step_tree [OF tts, of empty_index] kt by (simp add: build_def)
    ultimately show ?thesis using True current
      by (simp add: applyOffsetShift_def delta_def [symmetric])
  next
    case False
    have same: "filter (\<lambda>th. anchorOf (thread_id th) = anchorOf k) vs
                  = filter (\<lambda>th. thread_id th = thread_id t) vs"
    proof (rule filter_cong [OF refl])
      fix th assume "th \<in> set vs"
      with wf(2) have "(thread_id th, th) \<in> set (threadMap (build ts))" by auto
      with unshared have "anchorOf (thread_id th) = anchorOf k \<longrightarrow> thread_id th = k" by blast
      then show "(anchorOf (thread_id th) = anchorOf k) = (thread_id th = thread_id t)"
        using kt by auto
    qed
    have once: "filter (\<lambda>th. anchorOf (thread_id th) = anchorOf k) vs = [t]"
      unfolding same by (rule filter_distinct_key [OF wf(1) tv])
    have "store' (anchorOf k) = shiftAnchor changeFrom changeTo delta (store (anchorOf k))"
      unfolding store'_def foldl_shift_count once by simp
    with current after have st: "store' (anchorOf k) = (anchor t)
         \<lparr>startOffset := startOffset (anchor t) + delta,
          endOffset := endOffset (anchor t) + delta\<rparr>"
      by (simp add: shiftAnchor_def)
    have sht: "sh t = t\<lparr>anchor := (anchor t)
         \<lparr>startOffset := startOffset (anchor t) + delta,
          endOffset := endOffset (anchor t) + delta\<rparr>\<rparr>"
      using st kt by (simp add: sh_def with_anchor_def)
    have ids: "map thread_id (map sh vs) = map thread_id vs"
      by (simp add: sh_def with_anchor_def)
    have d: "distinct (map thread_id (map sh vs))" unfolding ids by (rule wf(1))
    from build_distinct [OF d]
    have tm: "threadMap (build (map sh vs)) = map (\<lambda>t. (thread_id t, t)) (map sh vs)" .
    have dk: "distinct (map fst (threadMap (build (map sh vs))))"
      using d by (simp add: tm comp_def)
    have idsh: "thread_id (sh t) = thread_id t" by (simp add: sh_def with_anchor_def)
    from tv have m: "sh t \<in> set (map sh vs)" by simp
    from tv have "(thread_id (sh t), sh t) \<in> (\<lambda>x. (thread_id (sh x), sh x)) ` set vs"
      by blast
    then have "(k, sh t) \<in> set (threadMap (build (map sh vs)))"
      by (simp add: tm kt idsh comp_def)
    with dk have look: "map_of (threadMap (build (map sh vs))) k = Some (sh t)" by simp
    have "filter (\<lambda>entry. snd entry = k) (tree (build (map sh vs)))
            = map iv (filter ne (filter (\<lambda>x. thread_id x = thread_id (sh t)) (map sh vs)))"
      unfolding build_tree iv_def ne_def
      by (simp add: filter_map comp_def kt idsh conj_commute)
    also have "filter (\<lambda>x. thread_id x = thread_id (sh t)) (map sh vs) = [sh t]"
      by (rule filter_distinct_key [OF d m])
    finally have exact: "filter (\<lambda>entry. snd entry = k) (tree (build (map sh vs)))
            = (if startOffset (anchor t) < endOffset (anchor t)
               then [((startOffset (anchor t) + delta, endOffset (anchor t) + delta), k)]
               else [])"
      by (simp add: iv_def ne_def sht kt)
    have present: "startOffset (anchor t) < endOffset (anchor t) \<longrightarrow>
        ((startOffset (anchor t) + delta, endOffset (anchor t) + delta), k)
          \<in> set (tree (build (map sh vs)))"
    proof
      assume lt: "startOffset (anchor t) < endOffset (anchor t)"
      with exact have "((startOffset (anchor t) + delta, endOffset (anchor t) + delta), k)
          \<in> set (filter (\<lambda>entry. snd entry = k) (tree (build (map sh vs))))" by simp
      then show "((startOffset (anchor t) + delta, endOffset (anchor t) + delta), k)
          \<in> set (tree (build (map sh vs)))" by simp
    qed
    from st look sht exact present False show ?thesis
      by (simp add: applyOffsetShift_def delta_def [symmetric] vs_def [symmetric]
          store'_def [symmetric] sh_def [symmetric] Let_def)
  qed
qed

theorem applyOffsetShift_after_change_witness:
  "fst (applyOffsetShift separate_anchor_objects store_separate
          (build [example_thread 10 14, example_thread2 0 3]) 0 5 7) 1
     = anchor (example_thread 12 16) \<and>
   map_of (threadMap (snd (applyOffsetShift separate_anchor_objects store_separate
                             (build [example_thread 10 14, example_thread2 0 3]) 0 5 7))) ''t1''
     = Some (example_thread 12 16) \<and>
   ((12, 16), ''t1'')
     \<in> set (tree (snd (applyOffsetShift separate_anchor_objects store_separate
                          (build [example_thread 10 14, example_thread2 0 3]) 0 5 7)))"
proof -
  have tm: "threadMap (build [example_thread 10 14, example_thread2 0 3]) =
              [(''t1'', example_thread 10 14), (''t2'', example_thread2 0 3)]"
    by (simp add: build_def build_step_def empty_index_def example_thread_def
        example_thread2_def)
  have held: "(''t1'', example_thread 10 14)
                \<in> set (threadMap (build [example_thread 10 14, example_thread2 0 3]))"
    by (simp add: tm)
  have current: "store_separate (separate_anchor_objects ''t1'') = anchor (example_thread 10 14)"
    by (simp add: store_separate_def separate_anchor_objects_def)
  have unshared: "\<forall>(k', t') \<in> set (threadMap (build [example_thread 10 14, example_thread2 0 3])).
      separate_anchor_objects k' = separate_anchor_objects ''t1'' \<longrightarrow> k' = ''t1''"
    by (simp add: tm separate_anchor_objects_def)
  have after: "startOffset (anchor (example_thread 10 14)) \<ge> 5"
    by (simp add: example_thread_def)
  from applyOffsetShift_after_change
    [where k = "''t1''" and t = "example_thread 10 14"
       and ts = "[example_thread 10 14, example_thread2 0 3]"
       and store = store_separate and anchorOf = separate_anchor_objects
       and changeTo = 5 and changeFrom = 0 and insertLength = 7,
     OF held current unshared after]
  show ?thesis
    by (simp add: example_thread_def separate_anchor_objects_def)
qed

section \<open>Loading a sidecar file\<close>

lemma getPath_md: "extension f = ''md'' \<Longrightarrow> getPath f = Inr (sidecar_of f)"
  by (simp add: getPath_def sidecar_of_def)

text \<open>
  Claim C9, as stated, fails: \<open>load\<close> calls \<open>getPath\<close> outside its \<open>try\<close> block, and
  \<open>getPath\<close> rejects every file whose extension is not \<open>md\<close>. For a text file the
  error reaches the caller.
\<close>

theorem load_throws_for_non_md:
  "load no_parse empty_vault text_file = Inl OnlyMdSupported"
  by (simp add: load_def getPath_def text_file_def)

text \<open>
  Claim C9, amended. For every document file with extension \<open>md\<close>, \<open>load\<close> returns
  normally with a list of threads, and that list is empty when the sidecar file is
  absent, when its content is not JSON, and when the parsed value fails the schema
  validation. For every file with another extension, whatever the vault holds,
  \<open>load\<close> throws the error of \<open>getPath\<close>.
\<close>

theorem load_by_extension:
  "(extension f \<noteq> ''md'' \<longrightarrow> load parse v f = Inl OnlyMdSupported) \<and>
   (extension f = ''md'' \<longrightarrow>
      (\<exists>ts. load parse v f = Inr ts) \<and>
      (v (sidecar_of f) = None \<longrightarrow> load parse v f = Inr []) \<and>
      (\<forall>raw. v (sidecar_of f) = Some raw \<and> parse raw = None \<longrightarrow> load parse v f = Inr []) \<and>
      (\<forall>raw data. v (sidecar_of f) = Some raw \<and> parse raw = Some data \<and>
           validateSidecarFile data \<noteq> Valid \<longrightarrow> load parse v f = Inr []))"
proof (intro conjI impI)
  assume "extension f \<noteq> ''md''"
  then show "load parse v f = Inl OnlyMdSupported" by (simp add: load_def getPath_def)
next
  assume md: "extension f = ''md''"
  then show "\<exists>ts. load parse v f = Inr ts" by (simp add: load_def getPath_md)
  from md show "v (sidecar_of f) = None \<Longrightarrow> load parse v f = Inr []"
    by (simp add: load_def getPath_md)
  from md show "\<forall>raw. v (sidecar_of f) = Some raw \<and> parse raw = None
                  \<longrightarrow> load parse v f = Inr []"
    by (simp add: load_def getPath_md)
  from md show "\<forall>raw data. v (sidecar_of f) = Some raw \<and> parse raw = Some data \<and>
           validateSidecarFile data \<noteq> Valid \<longrightarrow> load parse v f = Inr []"
    by (simp add: load_def getPath_md)
qed

theorem load_by_extension_witness:
  "load parse_null garbage_vault text_file = Inl OnlyMdSupported \<and>
   load no_parse empty_vault notes_file = Inr [] \<and>
   load no_parse garbage_vault notes_file = Inr [] \<and>
   load parse_null garbage_vault notes_file = Inr []"
proof -
  have tx: "extension text_file \<noteq> ''md''" by (simp add: text_file_def)
  have md: "extension notes_file = ''md''" by (simp add: notes_file_def)
  have p: "sidecar_of notes_file = ''notes.agent-comments.json''"
    by (simp add: sidecar_of_def notes_file_def js_slice_def js_index_def SIDECAR_EXTENSION_def)
  have a: "empty_vault (sidecar_of notes_file) = None" by (simp add: empty_vault_def)
  have g: "garbage_vault (sidecar_of notes_file) = Some ''{not json''"
    by (simp add: p garbage_vault_def)
  have n: "no_parse ''{not json'' = None" by (simp add: no_parse_def)
  have i: "parse_null ''{not json'' = Some JNull \<and> validateSidecarFile JNull \<noteq> Valid"
    by (simp add: parse_null_def validateSidecarFile_def)
  from load_by_extension [of text_file parse_null garbage_vault] tx
  have 0: "load parse_null garbage_vault text_file = Inl OnlyMdSupported" by blast
  from load_by_extension [of notes_file no_parse empty_vault] md a
  have 1: "load no_parse empty_vault notes_file = Inr []" by blast
  from load_by_extension [of notes_file no_parse garbage_vault] md g n
  have 2: "load no_parse garbage_vault notes_file = Inr []" by blast
  from load_by_extension [of notes_file parse_null garbage_vault] md g i
  have 3: "load parse_null garbage_vault notes_file = Inr []" by blast
  from 0 1 2 3 show ?thesis by simp
qed

section \<open>Suggestions: stale and decided\<close>

lemma js_slice_nat_general: "js_slice s (int i) (int j) = take (j - i) (drop i s)"
  by (auto simp: js_slice_def js_index_def Let_def min_def)

lemma is_substring_iff: "is_substring n h \<longleftrightarrow> (\<exists>i. occurs_at h n i)"
proof
  assume "is_substring n h"
  then show "\<exists>i. occurs_at h n i" unfolding is_substring_def by blast
next
  assume "\<exists>i. occurs_at h n i"
  then obtain i where i: "occurs_at h n i" by blast
  then have "i < Suc (length h)" by (simp add: occurs_at_def)
  then have "i \<in> set [0..<Suc (length h)]" by (simp del: upt_Suc)
  with i show "is_substring n h" unfolding is_substring_def by blast
qed

lemma js_includes_iff: "js_includes h n \<longleftrightarrow> is_substring n h"
  unfolding is_substring_iff
proof
  assume "js_includes h n"
  then obtain i where "js_indexOf h n 0 = Some i" by (auto simp: js_includes_def)
  from js_indexOf_Some [OF _ this] show "\<exists>i. occurs_at h n i" by auto
next
  assume "\<exists>i. occurs_at h n i"
  then obtain i where i: "occurs_at h n i" by auto
  show "js_includes h n"
  proof (rule ccontr)
    assume "\<not> js_includes h n"
    then have "js_indexOf h n 0 = None" by (simp add: js_includes_def)
    from js_indexOf_None [OF _ this, of i] i show False by simp
  qed
qed

text \<open>For offsets that are not negative the anchor range text consists of the
  characters of the document at the positions from \<open>startOffset\<close> up to, not
  including, \<open>endOffset\<close>.\<close>

lemma anchor_range_text_positions:
  "0 \<le> startOffset a \<Longrightarrow> 0 \<le> endOffset a \<Longrightarrow>
     anchor_range_text doc a =
       take (nat (endOffset a) - nat (startOffset a)) (drop (nat (startOffset a)) doc)"
  using js_slice_nat_general [of doc "nat (startOffset a)" "nat (endOffset a)"]
  by (simp add: anchor_range_text_def)

text \<open>
  Claim C1. In a backend with an active document, for a thread whose referenced
  message carries a pending suggestion: when the original text of the suggestion is
  not a substring of the document text inside the anchor range of the thread,
  \<open>acceptSuggestion\<close> fails with \<open>StaleSuggestion\<close> and the state (document text,
  suggestion status, threads, outbox) is the one before the call. An occurrence of the
  original text outside the anchor range does not make the call succeed. This holds
  for \<open>LocalBackend\<close> and for \<open>OfflineAwareBackend\<close>.
\<close>

theorem acceptSuggestion_stale:
  "(suggestion_at st threadId messageId file thread message sg \<and> stale_pending st file thread sg
      \<longrightarrow> acceptSuggestion_local stringify now threadId messageId st = (Inl StaleSuggestion, st))
   \<and>
   (suggestion_at ost threadId' messageId' file' thread' message' sg' \<and>
    stale_pending ost file' thread' sg'
      \<longrightarrow> acceptSuggestion stringify now queuedAt threadId' messageId' ost
            = (Inl StaleSuggestion, ost))"
  by (simp add: suggestion_at_def stale_pending_def acceptSuggestion_def acceptSuggestion_local_def
      js_includes_iff anchor_range_text_def Let_def)

theorem acceptSuggestion_stale_witness:
  "acceptSuggestion_local example_stringify ''now'' ''t1'' ''m1'' (example_local Pending)
     = (Inl StaleSuggestion, example_local Pending) \<and>
   acceptSuggestion example_stringify ''now'' ''later'' ''t1'' ''m1'' (example_offline Pending)
     = (Inl StaleSuggestion, example_offline Pending)"
proof -
  have l: "suggestion_at (example_local Pending) ''t1'' ''m1'' notes_file
             (example_suggestion_thread Pending) (example_message Pending)
             (example_suggestion Pending)"
    by (simp add: suggestion_at_def example_local_def findThread_def findMessage_def
        example_suggestion_thread_def example_message_def)
  have ls: "stale_pending (example_local Pending) notes_file
              (example_suggestion_thread Pending) (example_suggestion Pending)"
    by (simp add: stale_pending_def js_includes_iff [symmetric] js_includes_def js_indexOf_def
        anchor_range_text_def example_local_def example_suggestion_thread_def
        example_suggestion_def notes_vault_def notes_file_def vault_read_def js_slice_def
        js_index_def)
  have o: "suggestion_at (example_offline Pending) ''t1'' ''m1'' notes_file
             (example_suggestion_thread Pending) (example_message Pending)
             (example_suggestion Pending)"
    by (simp add: suggestion_at_def example_offline_def findThread_def findMessage_def
        example_suggestion_thread_def example_message_def)
  have os: "stale_pending (example_offline Pending) notes_file
              (example_suggestion_thread Pending) (example_suggestion Pending)"
    by (simp add: stale_pending_def js_includes_iff [symmetric] js_includes_def js_indexOf_def
        anchor_range_text_def example_offline_def example_suggestion_thread_def
        example_suggestion_def notes_vault_def notes_file_def vault_read_def js_slice_def
        js_index_def)
  from acceptSuggestion_stale
    [of "example_local Pending" "''t1''" "''m1''" notes_file "example_suggestion_thread Pending"
        "example_message Pending" "example_suggestion Pending" example_stringify "''now''"
        "example_offline Pending" "''t1''" "''m1''" notes_file "example_suggestion_thread Pending"
        "example_message Pending" "example_suggestion Pending" "''later''"]
    l ls o os
  show ?thesis by blast
qed

text \<open>
  Claim C2. Once the status of a suggestion is \<open>accepted\<close> or \<open>rejected\<close>, every
  \<open>acceptSuggestion\<close> and \<open>rejectSuggestion\<close> call on its message (in a backend with an
  active document) fails with \<open>AlreadyDecided\<close>, and the state after the call is the
  state before it: no mutation precedes the error.
\<close>

theorem suggestion_terminal:
  "(suggestion_at st threadId messageId file thread message sg \<and> status sg \<noteq> Pending
      \<longrightarrow> acceptSuggestion_local stringify now threadId messageId st = (Inl AlreadyDecided, st) \<and>
          rejectSuggestion_local stringify now threadId messageId st = (Inl AlreadyDecided, st))
   \<and>
   (suggestion_at ost threadId' messageId' file' thread' message' sg' \<and> status sg' \<noteq> Pending
      \<longrightarrow> acceptSuggestion stringify now queuedAt threadId' messageId' ost
            = (Inl AlreadyDecided, ost) \<and>
          rejectSuggestion stringify now queuedAt threadId' messageId' ost
            = (Inl AlreadyDecided, ost))"
  by (simp add: suggestion_at_def acceptSuggestion_def acceptSuggestion_local_def
      rejectSuggestion_def rejectSuggestion_local_def)

theorem suggestion_terminal_witness:
  "acceptSuggestion_local example_stringify ''now'' ''t1'' ''m1'' (example_local Accepted)
     = (Inl AlreadyDecided, example_local Accepted) \<and>
   rejectSuggestion_local example_stringify ''now'' ''t1'' ''m1'' (example_local Accepted)
     = (Inl AlreadyDecided, example_local Accepted) \<and>
   acceptSuggestion example_stringify ''now'' ''later'' ''t1'' ''m1'' (example_offline Rejected)
     = (Inl AlreadyDecided, example_offline Rejected) \<and>
   rejectSuggestion example_stringify ''now'' ''later'' ''t1'' ''m1'' (example_offline Rejected)
     = (Inl AlreadyDecided, example_offline Rejected)"
proof -
  have l: "suggestion_at (example_local Accepted) ''t1'' ''m1'' notes_file
             (example_suggestion_thread Accepted) (example_message Accepted)
             (example_suggestion Accepted) \<and> status (example_suggestion Accepted) \<noteq> Pending"
    by (simp add: suggestion_at_def example_local_def findThread_def findMessage_def
        example_suggestion_thread_def example_message_def example_suggestion_def)
  have o: "suggestion_at (example_offline Rejected) ''t1'' ''m1'' notes_file
             (example_suggestion_thread Rejected) (example_message Rejected)
             (example_suggestion Rejected) \<and> status (example_suggestion Rejected) \<noteq> Pending"
    by (simp add: suggestion_at_def example_offline_def findThread_def findMessage_def
        example_suggestion_thread_def example_message_def example_suggestion_def)
  from suggestion_terminal
    [of "example_local Accepted" "''t1''" "''m1''" notes_file "example_suggestion_thread Accepted"
        "example_message Accepted" "example_suggestion Accepted" example_stringify "''now''"
        "example_offline Rejected" "''t1''" "''m1''" notes_file
        "example_suggestion_thread Rejected" "example_message Rejected"
        "example_suggestion Rejected" "''later''"] l o
  show ?thesis by blast
qed

text \<open>
  Claim C5, as stated, fails when the active document is not a markdown file. The
  backend has an active document and its wrapped backend is not connected, yet
  \<open>createThread\<close> throws at \<open>saveImmediate\<close> (the guard of \<open>getPath\<close>): the thread has
  been added in memory, but nothing is persisted, nothing is queued and no thread is
  returned.
\<close>

theorem createThread_throws_for_non_md:
  "activeFile text_offline = Some text_file \<and> \<not> isConnected text_offline \<and>
   fst (createThread example_stringify ''t2'' ''now'' ''later'' example_anchor None text_offline)
     = Inl OnlyMdSupported \<and>
   outbox (snd (createThread example_stringify ''t2'' ''now'' ''later'' example_anchor None
                  text_offline)) = [] \<and>
   vault (snd (createThread example_stringify ''t2'' ''now'' ''later'' example_anchor None
                 text_offline)) = vault text_offline"
  by (simp add: text_offline_def example_offline_def text_file_def createThread_def
      saveImmediate_def getPath_def isConnected_def connectionStatus_def example_wrapped_def
      never_connected_def Let_def)

text \<open>
  Claim C5, amended. With an active document whose extension is \<open>md\<close> and a wrapped
  backend that is not connected, \<open>createThread\<close> returns the new thread; afterwards the
  thread is the last element of \<open>getThreads\<close>, the sidecar file holds the serialisation
  of that thread list, and the outbox has grown by exactly one entry, of type
  \<open>createThread\<close>.
\<close>

theorem createThread_disconnected:
  assumes "activeFile st = Some file" and "extension file = ''md''" and "\<not> isConnected st"
  shows "\<exists>st'. createThread stringify newId now queuedAt a firstMessage st
                 = (Inr (createThreadModel newId now (path file) a firstMessage), st') \<and>
               getThreads st' = getThreads st @ [createThreadModel newId now (path file) a firstMessage] \<and>
               vault st' (sidecar_of file) =
                 Some (stringify \<lparr>version = SCHEMA_VERSION, sidecar_documentId = path file,
                                    sidecar_threads = getThreads st'\<rparr>) \<and>
               outbox st' = outbox st @
                 [\<lparr>entry_type = ''createThread'',
                   entry_payload = CreateThreadPayload a firstMessage,
                   entry_timestamp = queuedAt, retryCount = 0\<rparr>]"
  using assms
  by (simp add: createThread_def saveImmediate_def getPath_md writeFile_def Let_def
      forward_or_queue_def enqueue_def notify_def getThreads_def isConnected_def)


theorem createThread_disconnected_witness:
  "fst (createThread example_stringify ''t2'' ''now'' ''later'' example_anchor None
          (example_offline Pending))
     = Inr (createThreadModel ''t2'' ''now'' ''notes.md'' example_anchor None) \<and>
   outbox (snd (createThread example_stringify ''t2'' ''now'' ''later'' example_anchor None
                  (example_offline Pending)))
     = [\<lparr>entry_type = ''createThread'', entry_payload = CreateThreadPayload example_anchor None,
         entry_timestamp = ''later'', retryCount = 0\<rparr>]"
proof -
  have a: "activeFile (example_offline Pending) = Some notes_file"
    by (simp add: example_offline_def)
  have m: "extension notes_file = ''md''" by (simp add: notes_file_def)
  have c: "\<not> isConnected (example_offline Pending)"
    by (simp add: isConnected_def connectionStatus_def example_offline_def example_wrapped_def
        never_connected_def)
  from createThread_disconnected [OF a m c, of example_stringify "''t2''" "''now''" "''later''"
      example_anchor None]
  show ?thesis by (auto simp: notes_file_def example_offline_def)
qed

section \<open>Incoming events: duplicates and deliveries\<close>

lemma notify_threads [simp]: "threads (notify r n st) = threads st"
  by (simp add: notify_def)

lemma notify_notified: "length (notified (notify r n st)) \<le> Suc (length (notified st))"
  by (simp add: notify_def)

lemma save_unobserved_threads [simp]: "threads (save_unobserved s st) = threads st"
  by (simp add: save_unobserved_def split: option.splits sum.splits)

lemma save_unobserved_notified [simp]: "notified (save_unobserved s st) = notified st"
  by (simp add: save_unobserved_def split: option.splits sum.splits)

lemma handleIncomingThread_duplicate:
  "\<exists>t \<in> set (threads st). thread_id t = thread_id thread \<Longrightarrow>
     handleIncomingThread thread st = (st, None)"
  by (simp add: handleIncomingThread_def)

lemma deliver_thread_duplicate:
  "\<exists>t \<in> set (threads st). thread_id t = thread_id thread \<Longrightarrow>
     deliver_thread s thread st = st"
  by (simp add: deliver_thread_def handleIncomingThread_duplicate resume_pending_def)

lemma deliver_thread_threads:
  "\<not> (\<exists>t \<in> set (threads st). thread_id t = thread_id thread) \<Longrightarrow>
     \<exists>thread'. thread_id thread' = thread_id thread \<and>
        threads (deliver_thread s thread st) = threads st @ [thread']"
  by (auto simp: deliver_thread_def handleIncomingThread_def resume_pending_def
      reanchorAndAddThread_resume_def reanchorAndAddThread_start_def Let_def
      split: option.splits)

lemma deliver_thread_notified:
  "length (notified (deliver_thread s thread st)) \<le> Suc (length (notified st))"
  by (auto simp: deliver_thread_def handleIncomingThread_def resume_pending_def
      reanchorAndAddThread_resume_def reanchorAndAddThread_start_def Let_def notify_def
      split: option.splits)

lemma find_update_first:
  "find P xs = Some x \<Longrightarrow> P (f x) \<Longrightarrow> find P (update_first P f xs) = Some (f x)"
  by (induction xs) (auto split: if_splits)

lemma find_update_first_None:
  "find P xs = None \<Longrightarrow> update_first P f xs = xs"
  by (induction xs) (auto split: if_splits)

lemma handleIncomingMessage_duplicate:
  "findThread st threadId = Some thread \<Longrightarrow>
   \<exists>m \<in> set (messages thread). msg_id m = msg_id message \<Longrightarrow>
     handleIncomingMessage s now threadId message st = st"
  by (simp add: handleIncomingMessage_def)

lemma handleIncomingMessage_unknown_thread:
  "findThread st threadId = None \<Longrightarrow> handleIncomingMessage s now threadId message st = st"
  by (simp add: handleIncomingMessage_def)

lemma handleIncomingMessage_new:
  assumes "findThread st threadId = Some thread"
    and "\<not> (\<exists>m \<in> set (messages thread). msg_id m = msg_id message)"
  shows "findThread (handleIncomingMessage s now threadId message st) threadId =
           Some (thread\<lparr>messages := messages thread @ [message], updatedAt := now\<rparr>)"
    and "length (notified (handleIncomingMessage s now threadId message st))
           \<le> Suc (length (notified st))"
proof -
  from assms(1) have id: "thread_id thread = threadId"
    by (auto simp: findThread_def dest: find_Some_iff [THEN iffD1])
  have "findThread (update_thread threadId
          (\<lambda>t. t\<lparr>messages := messages t @ [message], updatedAt := now\<rparr>) st) threadId =
        Some (thread\<lparr>messages := messages thread @ [message], updatedAt := now\<rparr>)"
    using assms(1) id unfolding findThread_def update_thread_def
    by (simp add: find_update_first)
  then show "findThread (handleIncomingMessage s now threadId message st) threadId =
           Some (thread\<lparr>messages := messages thread @ [message], updatedAt := now\<rparr>)"
    using assms by (simp add: handleIncomingMessage_def Let_def findThread_def)
  show "length (notified (handleIncomingMessage s now threadId message st))
           \<le> Suc (length (notified st))"
    using assms by (simp add: handleIncomingMessage_def Let_def notify_def update_thread_def)
qed


lemma deliver_thread_twice:
  assumes "thread_id thread2 = thread_id thread"
  shows "deliver_thread s thread2 (deliver_thread s thread st) = deliver_thread s thread st"
proof (cases "\<exists>t \<in> set (threads st). thread_id t = thread_id thread")
  case True
  then have "deliver_thread s thread st = st" by (rule deliver_thread_duplicate)
  moreover from True assms have "deliver_thread s thread2 st = st"
    by (simp add: deliver_thread_duplicate)
  ultimately show ?thesis by simp
next
  case False
  from deliver_thread_threads [OF False, of s] assms
  have "\<exists>t \<in> set (threads (deliver_thread s thread st)). thread_id t = thread_id thread2"
    by auto
  then show ?thesis by (rule deliver_thread_duplicate)
qed

lemma handleIncomingMessage_twice:
  assumes "msg_id message2 = msg_id message"
  shows "handleIncomingMessage s now2 threadId message2
           (handleIncomingMessage s now threadId message st)
           = handleIncomingMessage s now threadId message st"
proof (cases "findThread st threadId")
  case None
  then show ?thesis by (simp add: handleIncomingMessage_unknown_thread)
next
  case (Some thread)
  show ?thesis
  proof (cases "\<exists>m \<in> set (messages thread). msg_id m = msg_id message")
    case True
    with Some assms show ?thesis by (simp add: handleIncomingMessage_duplicate)
  next
    case False
    from handleIncomingMessage_new(1) [OF Some False, of s now] assms
    show ?thesis by (auto intro!: handleIncomingMessage_duplicate)
  qed
qed

text \<open>
  What holds of the merge. An incoming thread whose id is already in the thread set,
  and an incoming message whose id is already in its thread, leave the whole state
  unchanged, the log of callback invocations included, and start no continuation.
  When each delivery completes before the next one is handled, a second delivery of
  the same thread or message changes nothing: a thread that was new is stored exactly
  once, a message that was new is stored exactly once in its thread, and the two
  deliveries together invoke the callback at most once.
\<close>

lemma sequential_deliveries_idempotent:
  "((\<exists>t \<in> set (threads st). thread_id t = thread_id thread)
       \<longrightarrow> handleIncomingThread thread st = (st, None)) \<and>
   (findThread st threadId = Some t \<and> (\<exists>m \<in> set (messages t). msg_id m = msg_id message)
       \<longrightarrow> handleIncomingMessage s now threadId message st = st) \<and>
   deliver_thread s thread (deliver_thread s thread st) = deliver_thread s thread st \<and>
   handleIncomingMessage s now2 threadId message (handleIncomingMessage s now threadId message st)
     = handleIncomingMessage s now threadId message st \<and>
   (\<not> (\<exists>t \<in> set (threads st). thread_id t = thread_id thread)
       \<longrightarrow> copies_of (thread_id thread) (deliver_thread s thread (deliver_thread s thread st)) = 1) \<and>
   length (notified (deliver_thread s thread (deliver_thread s thread st)))
     \<le> Suc (length (notified st)) \<and>
   (findThread st threadId = Some t \<and> \<not> (\<exists>m \<in> set (messages t). msg_id m = msg_id message)
       \<longrightarrow> (\<exists>t'. findThread (handleIncomingMessage s now2 threadId message
                                 (handleIncomingMessage s now threadId message st)) threadId
                    = Some t' \<and>
                 length (filter (\<lambda>m. msg_id m = msg_id message) (messages t')) = 1)) \<and>
   length (notified (handleIncomingMessage s now2 threadId message
                       (handleIncomingMessage s now threadId message st)))
     \<le> Suc (length (notified st))"
proof (intro conjI impI)
  assume "\<exists>t \<in> set (threads st). thread_id t = thread_id thread"
  then show "handleIncomingThread thread st = (st, None)"
    by (rule handleIncomingThread_duplicate)
next
  assume "findThread st threadId = Some t \<and> (\<exists>m \<in> set (messages t). msg_id m = msg_id message)"
  then show "handleIncomingMessage s now threadId message st = st"
    by (simp add: handleIncomingMessage_duplicate)
next
  show "deliver_thread s thread (deliver_thread s thread st) = deliver_thread s thread st"
    by (simp add: deliver_thread_twice)
next
  show "handleIncomingMessage s now2 threadId message
          (handleIncomingMessage s now threadId message st)
          = handleIncomingMessage s now threadId message st"
    by (simp add: handleIncomingMessage_twice)
next
  assume n: "\<not> (\<exists>t \<in> set (threads st). thread_id t = thread_id thread)"
  from deliver_thread_threads [OF n, of s] obtain thread'
    where t: "thread_id thread' = thread_id thread"
      "threads (deliver_thread s thread st) = threads st @ [thread']" by blast
  from n have "filter (\<lambda>t. thread_id t = thread_id thread) (threads st) = []"
    by (auto simp: filter_empty_conv)
  with t show "copies_of (thread_id thread)
      (deliver_thread s thread (deliver_thread s thread st)) = 1"
    by (simp add: deliver_thread_twice copies_of_def)
next
  show "length (notified (deliver_thread s thread (deliver_thread s thread st)))
          \<le> Suc (length (notified st))"
    by (simp add: deliver_thread_twice deliver_thread_notified)
next
  assume a: "findThread st threadId = Some t \<and>
             \<not> (\<exists>m \<in> set (messages t). msg_id m = msg_id message)"
  then have "filter (\<lambda>m. msg_id m = msg_id message) (messages t) = []"
    by (auto simp: filter_empty_conv)
  with handleIncomingMessage_new(1) [of st threadId t message s now] a
  show "\<exists>t'. findThread (handleIncomingMessage s now2 threadId message
                 (handleIncomingMessage s now threadId message st)) threadId = Some t' \<and>
             length (filter (\<lambda>m. msg_id m = msg_id message) (messages t')) = 1"
    by (simp add: handleIncomingMessage_twice)
next
  show "length (notified (handleIncomingMessage s now2 threadId message
                            (handleIncomingMessage s now threadId message st)))
          \<le> Suc (length (notified st))"
  proof (cases "findThread st threadId")
    case None
    then show ?thesis
      by (simp add: handleIncomingMessage_twice handleIncomingMessage_unknown_thread)
  next
    case (Some thread)
    show ?thesis
    proof (cases "\<exists>m \<in> set (messages thread). msg_id m = msg_id message")
      case True
      with Some show ?thesis
        by (simp add: handleIncomingMessage_twice handleIncomingMessage_duplicate)
    next
      case False
      from handleIncomingMessage_new(2) [OF Some False, of s now]
      show ?thesis by (simp add: handleIncomingMessage_twice)
    qed
  qed
qed

text \<open>
  Claim C7 says that delivering the same thread twice results in exactly one stored
  copy and at most one callback invocation. The duplicate check of
  \<open>handleIncomingThread\<close> ("skip duplicates") looks only at the thread set, and a thread
  whose \<open>reanchorAndAddThread\<close> is still waiting for the read of the document is not in
  it yet. When the second delivery of a new thread is handled before the read of the
  first has completed, both pass the check: the thread is stored twice and the
  callback is invoked twice.
\<close>

theorem incoming_thread_race_stores_two_copies:
  "copies_of ''t9'' (example_offline Pending) = 0 \<and>
   copies_of ''t9''
     (deliver_two_interleaved example_stringify incoming_thread incoming_thread
        (example_offline Pending)) = 2 \<and>
   notified (deliver_two_interleaved example_stringify incoming_thread incoming_thread
               (example_offline Pending))
     = [NewThread incoming_thread, NewThread incoming_thread]"
  by (simp add: copies_of_def deliver_two_interleaved_def handleIncomingThread_def
      resume_pending_def reanchorAndAddThread_start_def reanchorAndAddThread_resume_def
      save_unobserved_def saveImmediate_def getPath_def writeFile_def notify_def
      example_offline_def example_suggestion_thread_def incoming_thread_def
      createThreadModel_def example_anchor_def notes_file_def notes_vault_def vault_read_def
      resolveAnchor_def exactMatch_def js_slice_def js_index_def Let_def)

section \<open>Draining the outbox\<close>

text \<open>
  Claim C6, as stated, says that the drain stops for the cycle on every forwarding
  failure. It does not when the failure is the third one of the entry: the entry is
  discarded and the loop continues. Here the head has failed twice before, its
  forward fails again, and the entry behind it is nevertheless forwarded and removed
  in the same cycle.
\<close>

theorem drainOutbox_continues_after_discard:
  "\<not> fst (forwardToBackend (wrapped (drain_example 2)) (hd (outbox (drain_example 2)))) \<and>
   outbox (drainOutbox (drain_example 2)) = [] \<and>
   calls (wrapped (drainOutbox (drain_example 2))) =
     [(''createThread'', CreateThreadPayload example_anchor None),
      (''resolveThread'', ThreadIdPayload ''t1'')]"
  by (simp add: drain_example_def example_offline_def example_wrapped_def example_entry_def
      drainOutbox_def forwardToBackend_def wrapped_call_def known_types_def connectionStatus_def
      always_connected_def fails_first_def MAX_RETRY_COUNT_def)

lemma forwardToBackend_calls:
  "calls (snd (forwardToBackend w e)) = calls w @ (if known_entry e then [entry_call e] else [])"
  by (simp add: forwardToBackend_def wrapped_call_def known_entry_def entry_call_def)

lemma drain_loop_fifo:
  "\<exists>n \<le> length ob.
     calls (fst (drain_loop w ob)) = calls w @ map entry_call (filter known_entry (take n ob)) \<and>
     (snd (drain_loop w ob) = drop n ob \<or>
      (0 < n \<and> retryCount (ob ! (n - 1)) + 1 < MAX_RETRY_COUNT \<and>
       snd (drain_loop w ob) = failed_once_more (ob ! (n - 1)) # drop n ob))"
proof (induction ob arbitrary: w)
  case Nil
  then show ?case by simp
next
  case (Cons e rest)
  let ?w' = "snd (forwardToBackend w e)"
  show ?case
  proof (cases "connectionStatus w \<noteq> Connected")
    case True
    then have "calls (fst (drain_loop w (e # rest))) = calls w @ map entry_call (filter known_entry (take 0 (e # rest))) \<and>
       snd (drain_loop w (e # rest)) = drop 0 (e # rest)" by simp
    then show ?thesis by blast
  next
    case conn: False
    show ?thesis
    proof (cases "fst (forwardToBackend w e) \<or> retryCount e + 1 \<ge> MAX_RETRY_COUNT")
      case True
      with conn have eq: "drain_loop w (e # rest) = drain_loop ?w' rest" by auto
      from Cons.IH [of ?w'] obtain n where n: "n \<le> length rest"
        "calls (fst (drain_loop ?w' rest)) =
           calls ?w' @ map entry_call (filter known_entry (take n rest))"
        "snd (drain_loop ?w' rest) = drop n rest \<or>
          (0 < n \<and> retryCount (rest ! (n - 1)) + 1 < MAX_RETRY_COUNT \<and>
           snd (drain_loop ?w' rest) = failed_once_more (rest ! (n - 1)) # drop n rest)"
        by blast
      have "Suc n \<le> length (e # rest)" using n(1) by simp
      moreover have "calls (fst (drain_loop w (e # rest))) =
          calls w @ map entry_call (filter known_entry (take (Suc n) (e # rest)))"
        using n(2) by (simp add: eq forwardToBackend_calls del: drain_loop.simps)
      moreover have "snd (drain_loop w (e # rest)) = drop (Suc n) (e # rest) \<or>
          (0 < Suc n \<and> retryCount ((e # rest) ! (Suc n - 1)) + 1 < MAX_RETRY_COUNT \<and>
           snd (drain_loop w (e # rest)) =
             failed_once_more ((e # rest) ! (Suc n - 1)) # drop (Suc n) (e # rest))"
        using n(3) by (cases n) (auto simp: eq simp del: drain_loop.simps)
      ultimately show ?thesis by blast
    next
      case False
      with conn have eq: "drain_loop w (e # rest) = (?w', failed_once_more e # rest)"
        by (simp add: failed_once_more_def)
      have "Suc 0 \<le> length (e # rest)" by simp
      moreover have "calls (fst (drain_loop w (e # rest))) =
          calls w @ map entry_call (filter known_entry (take (Suc 0) (e # rest)))"
        by (simp add: eq forwardToBackend_calls del: drain_loop.simps)
      moreover have "0 < Suc 0 \<and> retryCount ((e # rest) ! (Suc 0 - 1)) + 1 < MAX_RETRY_COUNT \<and>
           snd (drain_loop w (e # rest)) =
             failed_once_more ((e # rest) ! (Suc 0 - 1)) # drop (Suc 0) (e # rest)"
        using False by (simp add: eq del: drain_loop.simps)
      ultimately show ?thesis by blast
    qed
  qed
qed

text \<open>
  Claim C6, amended. \<open>drainOutbox\<close> never changes the thread set or the vault. It
  forwards the entries of the outbox in order from the head, none skipped: the calls
  made are those of a prefix of the outbox and what remains is the rest of the outbox.
  A forwarded entry is removed on success. On failure its \<open>retryCount\<close> is
  incremented; when the count is still below \<open>MAX_RETRY_COUNT = 3\<close> the drain stops with
  the entry kept at the head and the entries behind it untouched; when the count
  reaches 3 the entry is discarded and the drain goes on with the next entry.
\<close>

theorem drainOutbox_fifo_retry:
  "threads (drainOutbox st) = threads st \<and> vault (drainOutbox st) = vault st \<and>
   (\<exists>n \<le> length (outbox st).
      calls (wrapped (drainOutbox st))
        = calls (wrapped st) @ map entry_call (filter known_entry (take n (outbox st))) \<and>
      (outbox (drainOutbox st) = drop n (outbox st) \<or>
       (0 < n \<and> retryCount (outbox st ! (n - 1)) + 1 < MAX_RETRY_COUNT \<and>
        outbox (drainOutbox st) = failed_once_more (outbox st ! (n - 1)) # drop n (outbox st)))) \<and>
   (\<not> draining st \<and> outbox st = e # rest \<and> isConnected st \<longrightarrow>
      (if fst (forwardToBackend (wrapped st) e) \<or> retryCount e + 1 \<ge> MAX_RETRY_COUNT
       then outbox (drainOutbox st) = snd (drain_loop (snd (forwardToBackend (wrapped st) e)) rest)
       else outbox (drainOutbox st) = failed_once_more e # rest \<and>
            wrapped (drainOutbox st) = snd (forwardToBackend (wrapped st) e)))"
proof (intro conjI)
  show "threads (drainOutbox st) = threads st" by (simp add: drainOutbox_def)
  show "vault (drainOutbox st) = vault st" by (simp add: drainOutbox_def)
  show "\<exists>n \<le> length (outbox st).
      calls (wrapped (drainOutbox st))
        = calls (wrapped st) @ map entry_call (filter known_entry (take n (outbox st))) \<and>
      (outbox (drainOutbox st) = drop n (outbox st) \<or>
       (0 < n \<and> retryCount (outbox st ! (n - 1)) + 1 < MAX_RETRY_COUNT \<and>
        outbox (drainOutbox st) = failed_once_more (outbox st ! (n - 1)) # drop n (outbox st)))"
  proof (cases "draining st \<or> outbox st = []")
    case True
    then have "drainOutbox st = st" by (simp add: drainOutbox_def)
    then have "calls (wrapped (drainOutbox st))
        = calls (wrapped st) @ map entry_call (filter known_entry (take 0 (outbox st))) \<and>
        outbox (drainOutbox st) = drop 0 (outbox st)" by simp
    then show ?thesis by blast
  next
    case False
    with drain_loop_fifo [of "outbox st" "wrapped st"] show ?thesis
      by (simp add: drainOutbox_def)
  qed
  show "\<not> draining st \<and> outbox st = e # rest \<and> isConnected st \<longrightarrow>
      (if fst (forwardToBackend (wrapped st) e) \<or> retryCount e + 1 \<ge> MAX_RETRY_COUNT
       then outbox (drainOutbox st) = snd (drain_loop (snd (forwardToBackend (wrapped st) e)) rest)
       else outbox (drainOutbox st) = failed_once_more e # rest \<and>
            wrapped (drainOutbox st) = snd (forwardToBackend (wrapped st) e))"
    by (auto simp: drainOutbox_def isConnected_def failed_once_more_def)
qed

theorem drainOutbox_fifo_retry_witness:
  "threads (drainOutbox (drain_example 0)) = threads (drain_example 0) \<and>
   outbox (drainOutbox (drain_example 0)) =
     [example_entry ''createThread'' (CreateThreadPayload example_anchor None) 1,
      example_entry ''resolveThread'' (ThreadIdPayload ''t1'') 0]"
proof -
  let ?e = "example_entry ''createThread'' (CreateThreadPayload example_anchor None) 0"
  let ?rest = "[example_entry ''resolveThread'' (ThreadIdPayload ''t1'') 0]"
  have h: "\<not> draining (drain_example 0) \<and> outbox (drain_example 0) = ?e # ?rest \<and>
           isConnected (drain_example 0)"
    by (simp add: drain_example_def example_offline_def example_wrapped_def isConnected_def
        connectionStatus_def always_connected_def)
  have f: "\<not> (fst (forwardToBackend (wrapped (drain_example 0)) ?e) \<or>
               retryCount ?e + 1 \<ge> MAX_RETRY_COUNT)"
    by (simp add: drain_example_def example_wrapped_def example_entry_def forwardToBackend_def
        wrapped_call_def known_types_def fails_first_def MAX_RETRY_COUNT_def)
  from drainOutbox_fifo_retry [where st = "drain_example 0" and e = ?e and rest = ?rest] h f
  have "threads (drainOutbox (drain_example 0)) = threads (drain_example 0)"
    and "outbox (drainOutbox (drain_example 0)) = failed_once_more ?e # ?rest"
    by auto
  then show ?thesis by (simp add: failed_once_more_def example_entry_def)
qed

end
